theory Spec2Isabelle
  imports Main
begin

section \<open>The functional evaluator (interfaces and free functions)\<close>

subsection \<open>Values, expressions and thunks\<close>

text \<open>
  A \<open>FuncValue\<close> holds a host closure \<open>(a: Expr) => Expr\<close>. HOL datatypes cannot hold a
  function over themselves, so the closures are defunctionalised: every closure the
  repository ever builds is a constructor of \<open>closure\<close> together with the expressions it
  has captured. \<open>fn1\<close> are the functions handed to \<open>makeFunc\<close>, \<open>fn2\<close> those
  handed to \<open>makeFunc2\<close>, \<open>fn3\<close> those handed to \<open>makeFunc3\<close>.
\<close>

datatype fn1 = BuiltinInc | BuiltinDec | BuiltinNeg | BuiltinI | MakeCar | MakeCdr | BuiltinIsNil

datatype fn2 =
    SelectFirst    \<comment> \<open>\<open>(a, b) => a\<close>, the body of \<open>theTrue\<close>\<close>
  | SelectSecond   \<comment> \<open>\<open>(a, b) => b\<close>, the body of \<open>theFalse\<close>\<close>
  | ConstFalse     \<comment> \<open>\<open>(a, b) => makeBoolean(false)\<close>, built in \<open>isNilSlow\<close>\<close>
  | BuiltinAdd | BuiltinMul | BuiltinDiv | BuiltinEq | BuiltinLt
  | MakeCons

datatype fn3 = BuiltinS | BuiltinC | BuiltinB

type_synonym addr = nat

datatype val =
    NumberValue int
  | FuncValue closure
  | NilValue
  | ConsValue expr expr
and expr =
    V val
  | Thunk addr    \<comment> \<open>a reference to a mutable thunk object\<close>
and closure =
    Func1 fn1                \<comment> \<open>\<open>makeFunc(f)\<close>\<close>
  | Func2 fn2                \<comment> \<open>\<open>makeFunc2(f)\<close>: \<open>(a) => makeFunc((b) => f(a, b))\<close>\<close>
  | Func2_1 fn2 expr         \<comment> \<open>the inner \<open>(b) => f(a, b)\<close> with \<open>a\<close> captured\<close>
  | Func3 fn3
  | Func3_1 fn3 expr
  | Func3_2 fn3 expr expr

text \<open>
  An \<open>Environment\<close> object has two fields that are never reassigned: \<open>defs_\<close>, a
  reference to a mutable \<open>Map\<close>, and the optional \<open>parent_\<close>. The object is therefore a
  value; the \<open>Map\<close> lives in the store.
\<close>

datatype environment = Environment (envDefs: addr) (envParent: "environment option")

text \<open>The recipes of thunks: every \<open>() => Value\<close> closure handed to \<open>makeThunk\<close>.\<close>

datatype recipe =
    ApplyRecipe expr expr               \<comment> \<open>\<open>() => apply(lhs, rhs)\<close> in \<open>makeApply\<close>\<close>
  | ReferenceRecipe environment string  \<comment> \<open>the closure of \<open>makeReference\<close>\<close>
  | IncRecipe expr
  | DecRecipe expr
  | AddRecipe expr expr
  | MulRecipe expr expr
  | DivRecipe expr expr
  | EqRecipe expr expr
  | LtRecipe expr expr
  | NegRecipe expr
  | SRecipe expr expr expr
  | IsNilRecipe expr

record thunk =
  func :: "recipe option"
  cache :: "val option"

datatype error =
    NotApplicable                  \<comment> \<open>\<open>Invalid function call: number\<close>; \<open>Not a func\<close>\<close>
  | InternalInvariantViolation     \<comment> \<open>\<open>Broken thunk\<close>\<close>
  | UndefinedReference string      \<comment> \<open>\<open>Undefined reference ${name}\<close>\<close>
  | DuplicateDefinition string     \<comment> \<open>\<open>Duplicated definition: ${name}\<close>\<close>
  | AmbiguousValue                 \<comment> \<open>\<open>Not nil/cons\<close>; \<open>Not a nil/cons\<close>\<close>
  | TypeMismatch string "string list"  \<comment> \<open>\<open>${op}: wrong types: ${kinds}\<close>\<close>
  | DivisionByZero                 \<comment> \<open>the \<open>RangeError\<close> of BigInt division by zero\<close>
  | EmptyReduce                    \<comment> \<open>the \<open>TypeError\<close> of \<open>reduce\<close> on an empty array\<close>
  | NotACons                       \<comment> \<open>\<open>Not a cons\<close>\<close>
  | NotModulatable                 \<comment> \<open>\<open>Not modulatable\<close>\<close>

text \<open>
  The store: the thunk objects (a thunk's address is its index; \<open>makeThunk\<close> appends),
  the module-level \<open>evalCounter\<close> (a JavaScript number that only counts up, here a
  natural number), and the \<open>Map\<close> objects of the environments (insertion-ordered
  association lists).
\<close>

record state =
  heap :: "thunk list"
  evalCounter :: nat
  envMaps :: "(string \<times> expr) list list"

text \<open>
  A call either returns a value and the store it leaves, throws, or does not return
  within the given call depth. The store type is a parameter: the functional and the
  class-based variant of the evaluator each have their own.
\<close>

datatype ('a, 's) outcome = Ok 'a 's | Err error | Timeout

type_synonym 'a result = "('a, state) outcome"

fun seq :: "('a, 's) outcome \<Rightarrow> ('a \<Rightarrow> 's \<Rightarrow> ('b, 's) outcome) \<Rightarrow> ('b, 's) outcome" where
  "seq (Ok a s) k = k a s"
| "seq (Err e) k = Err e"
| "seq Timeout k = Timeout"

text \<open>
  Reading a thunk object. Every reference of the source is to an object that exists; an
  address beyond the store reads as an object with neither recipe nor cache, which
  \<open>evaluate\<close> reports as a broken thunk.
\<close>

definition thunkAt :: "state \<Rightarrow> addr \<Rightarrow> thunk" where
  "thunkAt s a = (if a < length (heap s) then heap s ! a else \<lparr>func = None, cache = None\<rparr>)"

subsection \<open>Basic constructors\<close>

definition makeNumber :: "int \<Rightarrow> val" where
  "makeNumber i = NumberValue i"

definition makeFunc :: "fn1 \<Rightarrow> val" where
  "makeFunc f = FuncValue (Func1 f)"

definition makeFunc2 :: "fn2 \<Rightarrow> val" where
  "makeFunc2 f = FuncValue (Func2 f)"

definition makeFunc3 :: "fn3 \<Rightarrow> val" where
  "makeFunc3 f = FuncValue (Func3 f)"

definition makeNil :: val where
  "makeNil = NilValue"

definition makeCons :: "expr \<Rightarrow> expr \<Rightarrow> val" where
  "makeCons car cdr = ConsValue car cdr"

definition makeThunk :: "recipe \<Rightarrow> state \<Rightarrow> expr result" where
  "makeThunk f s =
     Ok (Thunk (length (heap s))) (s\<lparr>heap := heap s @ [\<lparr>func = Some f, cache = None\<rparr>]\<rparr>)"

definition theTrue :: val where
  "theTrue = makeFunc2 SelectFirst"

definition theFalse :: val where
  "theFalse = makeFunc2 SelectSecond"

definition makeBoolean :: "bool \<Rightarrow> val" where
  "makeBoolean b = (if b then theTrue else theFalse)"

fun kind :: "val \<Rightarrow> string" where
  "kind (NumberValue _) = ''number''"
| "kind (FuncValue _) = ''func''"
| "kind NilValue = ''nil''"
| "kind (ConsValue _ _) = ''cons''"

subsection \<open>Environment\<close>

definition newEnvironment :: "environment option \<Rightarrow> state \<Rightarrow> environment result" where
  "newEnvironment parent s =
     Ok (Environment (length (envMaps s)) parent) (s\<lparr>envMaps := envMaps s @ [[]]\<rparr>)"

definition mapAt :: "state \<Rightarrow> addr \<Rightarrow> (string \<times> expr) list" where
  "mapAt s a = (if a < length (envMaps s) then envMaps s ! a else [])"

text \<open>
  \<open>Environment.define\<close> (\<open>define\<close> is a keyword of the proof language). An
  environment of the source always has its \<open>Map\<close>; for an address beyond the store the
  model reads the empty map and writes nothing.
\<close>

definition envDefine :: "environment \<Rightarrow> string \<Rightarrow> expr \<Rightarrow> state \<Rightarrow> unit result" where
  "envDefine env name e s =
     (if name \<in> fst ` set (mapAt s (envDefs env)) then Err (DuplicateDefinition name)
      else Ok () (s\<lparr>envMaps := (envMaps s)[envDefs env := mapAt s (envDefs env) @ [(name, e)]]\<rparr>))"

fun lookup :: "state \<Rightarrow> environment \<Rightarrow> string \<Rightarrow> expr option" where
  "lookup s (Environment d p) name =
     (case map_of (mapAt s d) name of
        Some e \<Rightarrow> Some e
      | None \<Rightarrow> (case p of Some q \<Rightarrow> lookup s q name | None \<Rightarrow> None))"

subsection \<open>Array.prototype.reduce and reduceRight without an initial value\<close>

fun reduceFrom ::
  "('a \<Rightarrow> 'a \<Rightarrow> 's \<Rightarrow> ('a, 's) outcome) \<Rightarrow> 'a \<Rightarrow> 'a list \<Rightarrow> 's \<Rightarrow> ('a, 's) outcome" where
  "reduceFrom f acc [] s = Ok acc s"
| "reduceFrom f acc (x # xs) s = seq (f acc x s) (\<lambda>acc' s'. reduceFrom f acc' xs s')"

fun reduce ::
  "('a \<Rightarrow> 'a \<Rightarrow> 's \<Rightarrow> ('a, 's) outcome) \<Rightarrow> 'a list \<Rightarrow> 's \<Rightarrow> ('a, 's) outcome" where
  "reduce f [] s = Err EmptyReduce"
| "reduce f (x # xs) s = reduceFrom f x xs s"

definition reduceRight :: "('a \<Rightarrow> 'a \<Rightarrow> 'a) \<Rightarrow> 'a list \<Rightarrow> 's \<Rightarrow> ('a, 's) outcome" where
  "reduceRight f xs s =
     (case rev xs of [] \<Rightarrow> Err EmptyReduce | x # ys \<Rightarrow> Ok (foldl f x ys) s)"

subsection \<open>Thunk evaluation and function application\<close>

text \<open>BigInt division truncates toward zero and throws on a zero divisor.\<close>

definition bigintDiv :: "int \<Rightarrow> int \<Rightarrow> state \<Rightarrow> val result" where
  "bigintDiv x y s =
     (if y = 0 then Err DivisionByZero
      else Ok (makeNumber (sgn x * sgn y * (\<bar>x\<bar> div \<bar>y\<bar>))) s)"

text \<open>The shared shape of the one- and two-operand arithmetic recipes, after forcing.\<close>

definition unaryOp :: "string \<Rightarrow> (int \<Rightarrow> val) \<Rightarrow> val \<Rightarrow> state \<Rightarrow> val result" where
  "unaryOp name f x s =
     (case x of NumberValue i \<Rightarrow> Ok (f i) s | _ \<Rightarrow> Err (TypeMismatch name [kind x]))"

definition binaryOp ::
  "string \<Rightarrow> (int \<Rightarrow> int \<Rightarrow> state \<Rightarrow> val result) \<Rightarrow> val \<Rightarrow> val \<Rightarrow> state \<Rightarrow> val result" where
  "binaryOp name f x y s =
     (case x of
        NumberValue i \<Rightarrow>
          (case y of NumberValue j \<Rightarrow> f i j s | _ \<Rightarrow> Err (TypeMismatch name [kind x, kind y]))
      | _ \<Rightarrow> Err (TypeMismatch name [kind x, kind y]))"

text \<open>
  The functions of the evaluator call each other. \<open>funcs\<close> is the table of these
  functions at one bound on the depth of nested calls; each body below is the source
  function, taking the table \<open>r\<close> of the functions it may call. \<open>runThunk\<close> is the
  call \<open>expr.func()\<close> of a thunk's recipe, \<open>callFunc\<close> the call \<open>func.func(rhs)\<close> of a
  \<open>FuncValue\<close>'s closure, \<open>apply'\<close> the module's private \<open>apply\<close> (a keyword of the
  proof language), \<open>makeApplyStep\<close> the callback that \<open>makeApply\<close> hands to \<open>reduce\<close>.
\<close>

record funcs =
  evaluate :: "expr \<Rightarrow> state \<Rightarrow> val result"
  runThunk :: "recipe \<Rightarrow> state \<Rightarrow> val result"
  apply' :: "expr \<Rightarrow> expr \<Rightarrow> state \<Rightarrow> val result"
  makeApply :: "expr list \<Rightarrow> state \<Rightarrow> expr result"
  makeApplyStep :: "expr \<Rightarrow> expr \<Rightarrow> state \<Rightarrow> expr result"
  callFunc :: "closure \<Rightarrow> expr \<Rightarrow> state \<Rightarrow> expr result"
  makeCar :: "expr \<Rightarrow> state \<Rightarrow> expr result"
  makeCdr :: "expr \<Rightarrow> state \<Rightarrow> expr result"
  isNil :: "expr \<Rightarrow> state \<Rightarrow> bool result"
  isNilSlow :: "closure \<Rightarrow> state \<Rightarrow> bool result"

definition evaluate_body :: "funcs \<Rightarrow> expr \<Rightarrow> state \<Rightarrow> val result" where
  "evaluate_body r e s =
     (case e of
        V v \<Rightarrow> Ok v s
      | Thunk a \<Rightarrow>
          (case cache (thunkAt s a) of
             Some v \<Rightarrow> Ok v s
           | None \<Rightarrow>
               (case func (thunkAt s a) of
                  None \<Rightarrow> Err InternalInvariantViolation
                | Some f \<Rightarrow>
                    seq (runThunk r f (s\<lparr>evalCounter := evalCounter s + 1\<rparr>))
                      (\<lambda>v s'. Ok v (s'\<lparr>heap := (heap s')[a := \<lparr>func = None, cache = Some v\<rparr>]\<rparr>)))))"

definition runThunk_body :: "funcs \<Rightarrow> recipe \<Rightarrow> state \<Rightarrow> val result" where
  "runThunk_body r f s =
     (case f of
        ApplyRecipe lhs rhs \<Rightarrow> apply' r lhs rhs s
      | ReferenceRecipe env name \<Rightarrow>
          (case lookup s env name of
             None \<Rightarrow> Err (UndefinedReference name)
           | Some resolved \<Rightarrow> evaluate r resolved s)
      | IncRecipe a \<Rightarrow>
          seq (evaluate r a s) (unaryOp ''inc'' (\<lambda>i. makeNumber (i + 1)))
      | DecRecipe a \<Rightarrow>
          seq (evaluate r a s) (unaryOp ''dec'' (\<lambda>i. makeNumber (i - 1)))
      | AddRecipe a b \<Rightarrow>
          seq (evaluate r a s) (\<lambda>x s1. seq (evaluate r b s1)
            (binaryOp ''add'' (\<lambda>i j. Ok (makeNumber (i + j))) x))
      | MulRecipe a b \<Rightarrow>
          seq (evaluate r a s) (\<lambda>x s1. seq (evaluate r b s1)
            (binaryOp ''mul'' (\<lambda>i j. Ok (makeNumber (i * j))) x))
      | DivRecipe a b \<Rightarrow>
          seq (evaluate r a s) (\<lambda>x s1. seq (evaluate r b s1)
            (binaryOp ''div'' bigintDiv x))
      | EqRecipe a b \<Rightarrow>
          seq (evaluate r a s) (\<lambda>x s1. seq (evaluate r b s1)
            (binaryOp ''eq'' (\<lambda>i j. Ok (makeBoolean (i = j))) x))
      | LtRecipe a b \<Rightarrow>
          seq (evaluate r a s) (\<lambda>x s1. seq (evaluate r b s1)
            (binaryOp ''lt'' (\<lambda>i j. Ok (makeBoolean (i < j))) x))
      | NegRecipe a \<Rightarrow>
          seq (evaluate r a s) (unaryOp ''neg'' (\<lambda>i. makeNumber (- i)))
      | SRecipe a b c \<Rightarrow>
          seq (makeApply r [a, c] s) (\<lambda>ac s1.
          seq (makeApply r [b, c] s1) (\<lambda>bc s2.
          seq (makeApply r [ac, bc] s2) (evaluate r)))
      | IsNilRecipe a \<Rightarrow>
          seq (isNil r a s) (\<lambda>b s1. Ok (makeBoolean b) s1))"

definition apply_body :: "funcs \<Rightarrow> expr \<Rightarrow> expr \<Rightarrow> state \<Rightarrow> val result" where
  "apply_body r lhs rhs s =
     seq (evaluate r lhs s) (\<lambda>f s1.
       case f of
         NumberValue _ \<Rightarrow> Err NotApplicable
       | NilValue \<Rightarrow> Ok (makeBoolean True) s1
       | ConsValue car cdr \<Rightarrow> seq (makeApply r [rhs, car, cdr] s1) (evaluate r)
       | FuncValue g \<Rightarrow> seq (callFunc r g rhs s1) (evaluate r))"

definition makeApply_body :: "funcs \<Rightarrow> expr list \<Rightarrow> state \<Rightarrow> expr result" where
  "makeApply_body r args s = reduce (makeApplyStep r) args s"

definition makeApplyStep_body :: "funcs \<Rightarrow> expr \<Rightarrow> expr \<Rightarrow> state \<Rightarrow> expr result" where
  "makeApplyStep_body r lhs rhs s =
     (case lhs of
        V (NumberValue _) \<Rightarrow> Err NotApplicable
      | V NilValue \<Rightarrow> Ok (V (makeBoolean True)) s
      | V (ConsValue car cdr) \<Rightarrow> makeApply r [rhs, car, cdr] s
      | V (FuncValue g) \<Rightarrow> callFunc r g rhs s
      | Thunk _ \<Rightarrow> makeThunk (ApplyRecipe lhs rhs) s)"

text \<open>The bodies of the functions handed to \<open>makeFunc\<close>, \<open>makeFunc2\<close>, \<open>makeFunc3\<close>.\<close>

definition call1 :: "funcs \<Rightarrow> fn1 \<Rightarrow> expr \<Rightarrow> state \<Rightarrow> expr result" where
  "call1 r f a s =
     (case f of
        BuiltinInc \<Rightarrow> makeThunk (IncRecipe a) s
      | BuiltinDec \<Rightarrow> makeThunk (DecRecipe a) s
      | BuiltinNeg \<Rightarrow> makeThunk (NegRecipe a) s
      | BuiltinI \<Rightarrow> Ok a s
      | MakeCar \<Rightarrow> makeCar r a s
      | MakeCdr \<Rightarrow> makeCdr r a s
      | BuiltinIsNil \<Rightarrow> makeThunk (IsNilRecipe a) s)"

definition call2 :: "fn2 \<Rightarrow> expr \<Rightarrow> expr \<Rightarrow> state \<Rightarrow> expr result" where
  "call2 f a b s =
     (case f of
        SelectFirst \<Rightarrow> Ok a s
      | SelectSecond \<Rightarrow> Ok b s
      | ConstFalse \<Rightarrow> Ok (V (makeBoolean False)) s
      | BuiltinAdd \<Rightarrow> makeThunk (AddRecipe a b) s
      | BuiltinMul \<Rightarrow> makeThunk (MulRecipe a b) s
      | BuiltinDiv \<Rightarrow> makeThunk (DivRecipe a b) s
      | BuiltinEq \<Rightarrow> makeThunk (EqRecipe a b) s
      | BuiltinLt \<Rightarrow> makeThunk (LtRecipe a b) s
      | MakeCons \<Rightarrow> Ok (V (makeCons a b)) s)"

definition call3 :: "funcs \<Rightarrow> fn3 \<Rightarrow> expr \<Rightarrow> expr \<Rightarrow> expr \<Rightarrow> state \<Rightarrow> expr result" where
  "call3 r f a b c s =
     (case f of
        BuiltinS \<Rightarrow> makeThunk (SRecipe a b c) s
      | BuiltinC \<Rightarrow> makeApply r [a, c, b] s
      | BuiltinB \<Rightarrow> seq (makeApply r [b, c] s) (\<lambda>bc s1. makeApply r [a, bc] s1))"

definition callFunc_body :: "funcs \<Rightarrow> closure \<Rightarrow> expr \<Rightarrow> state \<Rightarrow> expr result" where
  "callFunc_body r g x s =
     (case g of
        Func1 f \<Rightarrow> call1 r f x s
      | Func2 f \<Rightarrow> Ok (V (FuncValue (Func2_1 f x))) s
      | Func2_1 f a \<Rightarrow> call2 f a x s
      | Func3 f \<Rightarrow> Ok (V (FuncValue (Func3_1 f x))) s
      | Func3_1 f a \<Rightarrow> Ok (V (FuncValue (Func3_2 f a x))) s
      | Func3_2 f a b \<Rightarrow> call3 r f a b x s)"

definition makeCar_body :: "funcs \<Rightarrow> expr \<Rightarrow> state \<Rightarrow> expr result" where
  "makeCar_body r e s = makeApply r [e, V (makeBoolean True)] s"

definition makeCdr_body :: "funcs \<Rightarrow> expr \<Rightarrow> state \<Rightarrow> expr result" where
  "makeCdr_body r e s = makeApply r [e, V (makeBoolean False)] s"

definition isNil_body :: "funcs \<Rightarrow> expr \<Rightarrow> state \<Rightarrow> bool result" where
  "isNil_body r e s =
     seq (evaluate r e s) (\<lambda>v s1.
       case v of
         NilValue \<Rightarrow> Ok True s1
       | ConsValue _ _ \<Rightarrow> Ok False s1
       | NumberValue _ \<Rightarrow> Ok False s1
       | FuncValue g \<Rightarrow> isNilSlow r g s1)"

definition trueValue :: int where
  "trueValue = 123"

definition falseValue :: int where
  "falseValue = 456"

definition isNilSlow_body :: "funcs \<Rightarrow> closure \<Rightarrow> state \<Rightarrow> bool result" where
  "isNilSlow_body r g s =
     seq (evaluate r (V (makeFunc2 ConstFalse)) s) (\<lambda>bool s1.
     seq (makeApply r [V (FuncValue g), V bool, V (makeNumber trueValue), V (makeNumber falseValue)] s1)
       (\<lambda>e s2.
     seq (evaluate r e s2) (\<lambda>result s3.
       case result of
         NumberValue i \<Rightarrow>
           (if i = trueValue then Ok True s3
            else if i = falseValue then Ok False s3
            else Err AmbiguousValue)
       | _ \<Rightarrow> Err AmbiguousValue)))"

text \<open>
  \<open>depth n\<close> is the table of the functions restricted to nested calls of depth at most
  \<open>n\<close>: at depth \<open>0\<close> nothing returns, and every call goes one level down.
\<close>

primrec depth :: "nat \<Rightarrow> funcs" where
  "depth 0 =
     \<lparr>evaluate = (\<lambda>_ _. Timeout), runThunk = (\<lambda>_ _. Timeout), apply' = (\<lambda>_ _ _. Timeout),
      makeApply = (\<lambda>_ _. Timeout), makeApplyStep = (\<lambda>_ _ _. Timeout),
      callFunc = (\<lambda>_ _ _. Timeout), makeCar = (\<lambda>_ _. Timeout), makeCdr = (\<lambda>_ _. Timeout),
      isNil = (\<lambda>_ _. Timeout), isNilSlow = (\<lambda>_ _. Timeout)\<rparr>"
| "depth (Suc n) =
     \<lparr>evaluate = evaluate_body (depth n), runThunk = runThunk_body (depth n),
      apply' = apply_body (depth n), makeApply = makeApply_body (depth n),
      makeApplyStep = makeApplyStep_body (depth n), callFunc = callFunc_body (depth n),
      makeCar = makeCar_body (depth n), makeCdr = makeCdr_body (depth n),
      isNil = isNil_body (depth n), isNilSlow = isNilSlow_body (depth n)\<rparr>"

subsection \<open>References and the standard environment\<close>

definition makeReference :: "environment \<Rightarrow> string \<Rightarrow> state \<Rightarrow> expr result" where
  "makeReference env name s =
     (case lookup s env name of
        Some resolved \<Rightarrow> Ok resolved s
      | None \<Rightarrow> makeThunk (ReferenceRecipe env name) s)"

fun defineAll :: "environment \<Rightarrow> (string \<times> expr) list \<Rightarrow> state \<Rightarrow> unit result" where
  "defineAll env [] s = Ok () s"
| "defineAll env ((name, e) # ds) s = seq (envDefine env name e s) (\<lambda>_ s'. defineAll env ds s')"

definition standardDefinitions :: "(string \<times> expr) list" where
  "standardDefinitions =
     [(''inc'', V (makeFunc BuiltinInc)),
      (''dec'', V (makeFunc BuiltinDec)),
      (''add'', V (makeFunc2 BuiltinAdd)),
      (''mul'', V (makeFunc2 BuiltinMul)),
      (''div'', V (makeFunc2 BuiltinDiv)),
      (''eq'', V (makeFunc2 BuiltinEq)),
      (''lt'', V (makeFunc2 BuiltinLt)),
      (''neg'', V (makeFunc BuiltinNeg)),
      (''s'', V (makeFunc3 BuiltinS)),
      (''c'', V (makeFunc3 BuiltinC)),
      (''b'', V (makeFunc3 BuiltinB)),
      (''t'', V (makeBoolean True)),
      (''f'', V (makeBoolean False)),
      (''i'', V (makeFunc BuiltinI)),
      (''cons'', V (makeFunc2 MakeCons)),
      (''car'', V (makeFunc MakeCar)),
      (''cdr'', V (makeFunc MakeCdr)),
      (''nil'', V makeNil),
      (''isnil'', V (makeFunc BuiltinIsNil))]"

definition newStandardEnvironment :: "state \<Rightarrow> environment result" where
  "newStandardEnvironment s =
     seq (newEnvironment None s) (\<lambda>env s1.
     seq (defineAll env standardDefinitions s1) (\<lambda>_ s2. Ok env s2))"

subsection \<open>Static representation of modulatable data\<close>

datatype staticData =
    NumberData int
  | ListData "staticData list"
  | ConsData staticData staticData

fun exprToStaticData :: "nat \<Rightarrow> expr \<Rightarrow> state \<Rightarrow> staticData result"
  and exprToStaticData_loop :: "nat \<Rightarrow> staticData list \<Rightarrow> val \<Rightarrow> state \<Rightarrow> staticData result"
where
  "exprToStaticData 0 e s = Timeout"
| "exprToStaticData (Suc n) e s =
     seq (evaluate (depth n) e s) (\<lambda>v s1.
       case v of
         NumberValue i \<Rightarrow> Ok (NumberData i) s1
       | _ \<Rightarrow> exprToStaticData_loop n [] v s1)"
| "exprToStaticData_loop 0 elems cur s = Timeout"
| "exprToStaticData_loop (Suc n) elems cur s =
     (case cur of
        NumberValue _ \<Rightarrow>
          seq (exprToStaticData n (V cur) s) (\<lambda>d s1.
            reduceRight (\<lambda>cdr car. ConsData car cdr) (elems @ [d]) s1)
      | _ \<Rightarrow>
          seq (isNil (depth n) (V cur) s) (\<lambda>b s1.
            if b then Ok (ListData elems) s1
            else
              seq (makeCar (depth n) (V cur) s1) (\<lambda>car s2.
              seq (exprToStaticData n car s2) (\<lambda>d s3.
              seq (makeCdr (depth n) (V cur) s3) (\<lambda>cdr s4.
              seq (evaluate (depth n) cdr s4) (\<lambda>cur' s5.
                exprToStaticData_loop n (elems @ [d]) cur' s5))))))"

fun staticDataEqual :: "staticData \<Rightarrow> staticData \<Rightarrow> bool" where
  "staticDataEqual (NumberData i) b = (case b of NumberData j \<Rightarrow> i = j | _ \<Rightarrow> False)"
| "staticDataEqual (ListData xs) b =
     (case b of
        ListData ys \<Rightarrow> length xs = length ys \<and> list_all2 staticDataEqual xs ys
      | _ \<Rightarrow> False)"
| "staticDataEqual (ConsData car cdr) b =
     (case b of
        ConsData car' cdr' \<Rightarrow> staticDataEqual car car' \<and> staticDataEqual cdr cdr'
      | _ \<Rightarrow> False)"

section \<open>The class-based evaluator (classes with methods, and the \<open>Evaluator\<close>)\<close>

subsection \<open>Values, expressions and thunks\<close>

datatype oo_fn1 = OOInc | OODec | OONeg | OOI | OOCar | OOCdr | OOIsNil

datatype oo_fn2 =
    OOSelectFirst    \<comment> \<open>\<open>(a, _) => a\<close>, the body of \<open>theTrue\<close>\<close>
  | OOSelectSecond   \<comment> \<open>\<open>(_, b) => b\<close>, the body of \<open>theFalse\<close>\<close>
  | OOAdd | OOMul | OODiv | OOEq | OOLt
  | OOCons

datatype oo_fn3 = OOS | OOC | OOB

datatype oo_value =
    OONumberValue int
  | OOFuncValue oo_closure
  | OONilValue
  | OOConsValue oo_expr oo_expr
and oo_expr =
    OOV oo_value
  | OOThunk addr
and oo_closure =
    OOFunc1 oo_fn1                    \<comment> \<open>\<open>new FuncValue(f)\<close>\<close>
  | OOFunc2 oo_fn2                    \<comment> \<open>\<open>FuncValue.make2(f)\<close>\<close>
  | OOFunc2_1 oo_fn2 oo_expr
  | OOFunc3 oo_fn3                    \<comment> \<open>\<open>FuncValue.make3(f)\<close>\<close>
  | OOFunc3_1 oo_fn3 oo_expr
  | OOFunc3_2 oo_fn3 oo_expr oo_expr

text \<open>The recipes \<open>(ev: Evaluator) => Value\<close> handed to \<open>new Thunk\<close>.\<close>

datatype oo_recipe =
    OOApplyRecipe oo_expr oo_expr     \<comment> \<open>in \<open>Thunk.apply\<close>: \<open>this\<close> and \<open>arg\<close>\<close>
  | OOUnconsRecipe oo_expr bool       \<comment> \<open>in \<open>Thunk.uncons\<close>: \<open>this\<close>; \<open>False\<close> is index 0, \<open>True\<close> index 1\<close>
  | OOReferenceRecipe environment string
  | OOIncRecipe oo_expr
  | OODecRecipe oo_expr
  | OOAddRecipe oo_expr oo_expr
  | OOMulRecipe oo_expr oo_expr
  | OODivRecipe oo_expr oo_expr
  | OOEqRecipe oo_expr oo_expr
  | OOLtRecipe oo_expr oo_expr
  | OONegRecipe oo_expr
  | OOSRecipe oo_expr oo_expr oo_expr
  | OOIsNilRecipe oo_expr

record oo_thunk =
  oo_func :: "oo_recipe option"
  oo_cache :: "oo_value option"

text \<open>The store, with the \<open>counter\<close> field of the \<open>Evaluator\<close> object.\<close>

record oo_state =
  oo_heap :: "oo_thunk list"
  counter :: nat
  oo_envMaps :: "(string \<times> oo_expr) list list"

type_synonym 'a oo_result = "('a, oo_state) outcome"

definition oo_thunkAt :: "oo_state \<Rightarrow> addr \<Rightarrow> oo_thunk" where
  "oo_thunkAt s a =
     (if a < length (oo_heap s) then oo_heap s ! a else \<lparr>oo_func = None, oo_cache = None\<rparr>)"

definition newThunk :: "oo_recipe \<Rightarrow> oo_state \<Rightarrow> oo_expr oo_result" where
  "newThunk f s =
     Ok (OOThunk (length (oo_heap s)))
        (s\<lparr>oo_heap := oo_heap s @ [\<lparr>oo_func = Some f, oo_cache = None\<rparr>]\<rparr>)"

definition oo_theTrue :: oo_value where
  "oo_theTrue = OOFuncValue (OOFunc2 OOSelectFirst)"

definition oo_theFalse :: oo_value where
  "oo_theFalse = OOFuncValue (OOFunc2 OOSelectSecond)"

definition oo_makeBoolean :: "bool \<Rightarrow> oo_value" where
  "oo_makeBoolean b = (if b then oo_theTrue else oo_theFalse)"

fun oo_kind :: "oo_value \<Rightarrow> string" where
  "oo_kind (OONumberValue _) = ''number''"
| "oo_kind (OOFuncValue _) = ''func''"
| "oo_kind OONilValue = ''nil''"
| "oo_kind (OOConsValue _ _) = ''cons''"

subsection \<open>Environment\<close>

definition oo_mapAt :: "oo_state \<Rightarrow> addr \<Rightarrow> (string \<times> oo_expr) list" where
  "oo_mapAt s a = (if a < length (oo_envMaps s) then oo_envMaps s ! a else [])"

definition oo_newEnvironment :: "environment option \<Rightarrow> oo_state \<Rightarrow> environment oo_result" where
  "oo_newEnvironment parent s =
     Ok (Environment (length (oo_envMaps s)) parent) (s\<lparr>oo_envMaps := oo_envMaps s @ [[]]\<rparr>)"

definition oo_envDefine :: "environment \<Rightarrow> string \<Rightarrow> oo_expr \<Rightarrow> oo_state \<Rightarrow> unit oo_result" where
  "oo_envDefine env name e s =
     (if name \<in> fst ` set (oo_mapAt s (envDefs env)) then Err (DuplicateDefinition name)
      else Ok ()
        (s\<lparr>oo_envMaps := (oo_envMaps s)[envDefs env := oo_mapAt s (envDefs env) @ [(name, e)]]\<rparr>))"

fun oo_lookup :: "oo_state \<Rightarrow> environment \<Rightarrow> string \<Rightarrow> oo_expr option" where
  "oo_lookup s (Environment d p) name =
     (case map_of (oo_mapAt s d) name of
        Some e \<Rightarrow> Some e
      | None \<Rightarrow> (case p of Some q \<Rightarrow> oo_lookup s q name | None \<Rightarrow> None))"

definition oo_makeReference :: "environment \<Rightarrow> string \<Rightarrow> oo_state \<Rightarrow> oo_expr oo_result" where
  "oo_makeReference env name s =
     (case oo_lookup s env name of
        Some resolved \<Rightarrow> Ok resolved s
      | None \<Rightarrow> newThunk (OOReferenceRecipe env name) s)"

subsection \<open>The methods \<open>uncons\<close> and \<open>isNil\<close>\<close>

definition value_uncons :: "oo_value \<Rightarrow> oo_state \<Rightarrow> (oo_expr \<times> oo_expr) oo_result" where
  "value_uncons v s =
     (case v of
        OONumberValue _ \<Rightarrow> Err NotACons
      | OONilValue \<Rightarrow> Err NotACons
      | OOConsValue car cdr \<Rightarrow> Ok (car, cdr) s
      | OOFuncValue _ \<Rightarrow> Err NotACons)"

definition uncons :: "oo_expr \<Rightarrow> oo_state \<Rightarrow> (oo_expr \<times> oo_expr) oo_result" where
  "uncons e s =
     (case e of
        OOV v \<Rightarrow> value_uncons v s
      | OOThunk a \<Rightarrow>
          (case oo_cache (oo_thunkAt s a) of
             Some c \<Rightarrow> value_uncons c s
           | None \<Rightarrow>
               seq (newThunk (OOUnconsRecipe e False) s) (\<lambda>t0 s1.
               seq (newThunk (OOUnconsRecipe e True) s1) (\<lambda>t1 s2. Ok (t0, t1) s2))))"

definition value_isNil :: "oo_value \<Rightarrow> oo_state \<Rightarrow> bool oo_result" where
  "value_isNil v s =
     (case v of
        OONumberValue _ \<Rightarrow> Err AmbiguousValue
      | OONilValue \<Rightarrow> Ok True s
      | OOConsValue _ _ \<Rightarrow> Ok False s
      | OOFuncValue _ \<Rightarrow> Err AmbiguousValue)"

subsection \<open>Forcing and the method \<open>apply\<close>\<close>

definition oo_unaryOp ::
  "string \<Rightarrow> (int \<Rightarrow> oo_value) \<Rightarrow> oo_value \<Rightarrow> oo_state \<Rightarrow> oo_value oo_result" where
  "oo_unaryOp name f x s =
     (case x of OONumberValue i \<Rightarrow> Ok (f i) s | _ \<Rightarrow> Err (TypeMismatch name [oo_kind x]))"

definition oo_binaryOp ::
  "string \<Rightarrow> (int \<Rightarrow> int \<Rightarrow> oo_state \<Rightarrow> oo_value oo_result) \<Rightarrow> oo_value \<Rightarrow> oo_value \<Rightarrow>
     oo_state \<Rightarrow> oo_value oo_result" where
  "oo_binaryOp name f x y s =
     (case x of
        OONumberValue i \<Rightarrow>
          (case y of
             OONumberValue j \<Rightarrow> f i j s
           | _ \<Rightarrow> Err (TypeMismatch name [oo_kind x, oo_kind y]))
      | _ \<Rightarrow> Err (TypeMismatch name [oo_kind x, oo_kind y]))"

definition oo_bigintDiv :: "int \<Rightarrow> int \<Rightarrow> oo_state \<Rightarrow> oo_value oo_result" where
  "oo_bigintDiv x y s =
     (if y = 0 then Err DivisionByZero
      else Ok (OONumberValue (sgn x * sgn y * (\<bar>x\<bar> div \<bar>y\<bar>))) s)"

text \<open>
  The table of the mutually recursive methods: \<open>forceValue\<close> of the \<open>Evaluator\<close>,
  \<open>oo_runThunk\<close> the call \<open>expr.func(this)\<close> of a recipe, \<open>applyMethod\<close> the method
  \<open>apply\<close> of the five classes, \<open>oo_callFunc\<close> the call \<open>this.func(arg)\<close> of a closure.
\<close>

record oo_funcs =
  forceValue :: "oo_expr \<Rightarrow> oo_state \<Rightarrow> oo_value oo_result"
  oo_runThunk :: "oo_recipe \<Rightarrow> oo_state \<Rightarrow> oo_value oo_result"
  applyMethod :: "oo_expr \<Rightarrow> oo_expr \<Rightarrow> oo_state \<Rightarrow> oo_expr oo_result"
  oo_callFunc :: "oo_closure \<Rightarrow> oo_expr \<Rightarrow> oo_state \<Rightarrow> oo_expr oo_result"

definition forceValue_body :: "oo_funcs \<Rightarrow> oo_expr \<Rightarrow> oo_state \<Rightarrow> oo_value oo_result" where
  "forceValue_body r e s =
     (case e of
        OOV v \<Rightarrow> Ok v s
      | OOThunk a \<Rightarrow>
          (case oo_cache (oo_thunkAt s a) of
             Some v \<Rightarrow> Ok v s
           | None \<Rightarrow>
               (case oo_func (oo_thunkAt s a) of
                  None \<Rightarrow> Err InternalInvariantViolation
                | Some f \<Rightarrow>
                    seq (oo_runThunk r f (s\<lparr>counter := counter s + 1\<rparr>))
                      (\<lambda>v s'. Ok v
                         (s'\<lparr>oo_heap := (oo_heap s')[a := \<lparr>oo_func = None, oo_cache = Some v\<rparr>]\<rparr>)))))"

definition oo_runThunk_body :: "oo_funcs \<Rightarrow> oo_recipe \<Rightarrow> oo_state \<Rightarrow> oo_value oo_result" where
  "oo_runThunk_body r f s =
     (case f of
        OOApplyRecipe this arg \<Rightarrow>
          seq (forceValue r this s) (\<lambda>v s1.
          seq (applyMethod r (OOV v) arg s1) (forceValue r))
      | OOUnconsRecipe this second \<Rightarrow>
          seq (forceValue r this s) (\<lambda>v s1.
          seq (uncons (OOV v) s1) (\<lambda>p s2.
            forceValue r (if second then snd p else fst p) s2))
      | OOReferenceRecipe env name \<Rightarrow>
          (case oo_lookup s env name of
             None \<Rightarrow> Err (UndefinedReference name)
           | Some resolved \<Rightarrow> forceValue r resolved s)
      | OOIncRecipe a \<Rightarrow>
          seq (forceValue r a s) (oo_unaryOp ''inc'' (\<lambda>i. OONumberValue (i + 1)))
      | OODecRecipe a \<Rightarrow>
          seq (forceValue r a s) (oo_unaryOp ''dec'' (\<lambda>i. OONumberValue (i - 1)))
      | OOAddRecipe a b \<Rightarrow>
          seq (forceValue r a s) (\<lambda>x s1. seq (forceValue r b s1)
            (oo_binaryOp ''add'' (\<lambda>i j. Ok (OONumberValue (i + j))) x))
      | OOMulRecipe a b \<Rightarrow>
          seq (forceValue r a s) (\<lambda>x s1. seq (forceValue r b s1)
            (oo_binaryOp ''mul'' (\<lambda>i j. Ok (OONumberValue (i * j))) x))
      | OODivRecipe a b \<Rightarrow>
          seq (forceValue r a s) (\<lambda>x s1. seq (forceValue r b s1)
            (oo_binaryOp ''div'' oo_bigintDiv x))
      | OOEqRecipe a b \<Rightarrow>
          seq (forceValue r a s) (\<lambda>x s1. seq (forceValue r b s1)
            (oo_binaryOp ''eq'' (\<lambda>i j. Ok (oo_makeBoolean (i = j))) x))
      | OOLtRecipe a b \<Rightarrow>
          seq (forceValue r a s) (\<lambda>x s1. seq (forceValue r b s1)
            (oo_binaryOp ''lt'' (\<lambda>i j. Ok (oo_makeBoolean (i < j))) x))
      | OONegRecipe a \<Rightarrow>
          seq (forceValue r a s) (oo_unaryOp ''neg'' (\<lambda>i. OONumberValue (- i)))
      | OOSRecipe a b c \<Rightarrow>
          seq (applyMethod r a c s) (\<lambda>ac s1.
          seq (applyMethod r b c s1) (\<lambda>bc s2.
          seq (applyMethod r ac bc s2) (forceValue r)))
      | OOIsNilRecipe a \<Rightarrow>
          seq (forceValue r a s) (\<lambda>v s1.
          seq (value_isNil v s1) (\<lambda>b s2. Ok (oo_makeBoolean b) s2)))"

definition applyMethod_body :: "oo_funcs \<Rightarrow> oo_expr \<Rightarrow> oo_expr \<Rightarrow> oo_state \<Rightarrow> oo_expr oo_result" where
  "applyMethod_body r e arg s =
     (case e of
        OOV (OONumberValue _) \<Rightarrow> Err NotApplicable
      | OOV OONilValue \<Rightarrow> Ok (OOV (oo_makeBoolean True)) s
      | OOV (OOConsValue car cdr) \<Rightarrow>
          seq (applyMethod r arg car s) (\<lambda>x s1. applyMethod r x cdr s1)
      | OOV (OOFuncValue g) \<Rightarrow> oo_callFunc r g arg s
      | OOThunk a \<Rightarrow>
          (case oo_cache (oo_thunkAt s a) of
             Some c \<Rightarrow> applyMethod r (OOV c) arg s
           | None \<Rightarrow> newThunk (OOApplyRecipe e arg) s))"

definition oo_call1 :: "oo_fn1 \<Rightarrow> oo_expr \<Rightarrow> oo_state \<Rightarrow> oo_expr oo_result" where
  "oo_call1 f a s =
     (case f of
        OOInc \<Rightarrow> newThunk (OOIncRecipe a) s
      | OODec \<Rightarrow> newThunk (OODecRecipe a) s
      | OONeg \<Rightarrow> newThunk (OONegRecipe a) s
      | OOI \<Rightarrow> Ok a s
      | OOCar \<Rightarrow> seq (uncons a s) (\<lambda>p s1. Ok (fst p) s1)
      | OOCdr \<Rightarrow> seq (uncons a s) (\<lambda>p s1. Ok (snd p) s1)
      | OOIsNil \<Rightarrow> newThunk (OOIsNilRecipe a) s)"

definition oo_call2 :: "oo_fn2 \<Rightarrow> oo_expr \<Rightarrow> oo_expr \<Rightarrow> oo_state \<Rightarrow> oo_expr oo_result" where
  "oo_call2 f a b s =
     (case f of
        OOSelectFirst \<Rightarrow> Ok a s
      | OOSelectSecond \<Rightarrow> Ok b s
      | OOAdd \<Rightarrow> newThunk (OOAddRecipe a b) s
      | OOMul \<Rightarrow> newThunk (OOMulRecipe a b) s
      | OODiv \<Rightarrow> newThunk (OODivRecipe a b) s
      | OOEq \<Rightarrow> newThunk (OOEqRecipe a b) s
      | OOLt \<Rightarrow> newThunk (OOLtRecipe a b) s
      | OOCons \<Rightarrow> Ok (OOV (OOConsValue a b)) s)"

definition oo_call3 ::
  "oo_funcs \<Rightarrow> oo_fn3 \<Rightarrow> oo_expr \<Rightarrow> oo_expr \<Rightarrow> oo_expr \<Rightarrow> oo_state \<Rightarrow> oo_expr oo_result" where
  "oo_call3 r f a b c s =
     (case f of
        OOS \<Rightarrow> newThunk (OOSRecipe a b c) s
      | OOC \<Rightarrow> seq (applyMethod r a c s) (\<lambda>ac s1. applyMethod r ac b s1)
      | OOB \<Rightarrow> seq (applyMethod r b c s) (\<lambda>bc s1. applyMethod r a bc s1))"

definition oo_callFunc_body ::
  "oo_funcs \<Rightarrow> oo_closure \<Rightarrow> oo_expr \<Rightarrow> oo_state \<Rightarrow> oo_expr oo_result" where
  "oo_callFunc_body r g x s =
     (case g of
        OOFunc1 f \<Rightarrow> oo_call1 f x s
      | OOFunc2 f \<Rightarrow> Ok (OOV (OOFuncValue (OOFunc2_1 f x))) s
      | OOFunc2_1 f a \<Rightarrow> oo_call2 f a x s
      | OOFunc3 f \<Rightarrow> Ok (OOV (OOFuncValue (OOFunc3_1 f x))) s
      | OOFunc3_1 f a \<Rightarrow> Ok (OOV (OOFuncValue (OOFunc3_2 f a x))) s
      | OOFunc3_2 f a b \<Rightarrow> oo_call3 r f a b x s)"

primrec oo_depth :: "nat \<Rightarrow> oo_funcs" where
  "oo_depth 0 =
     \<lparr>forceValue = (\<lambda>_ _. Timeout), oo_runThunk = (\<lambda>_ _. Timeout),
      applyMethod = (\<lambda>_ _ _. Timeout), oo_callFunc = (\<lambda>_ _ _. Timeout)\<rparr>"
| "oo_depth (Suc n) =
     \<lparr>forceValue = forceValue_body (oo_depth n), oo_runThunk = oo_runThunk_body (oo_depth n),
      applyMethod = applyMethod_body (oo_depth n), oo_callFunc = oo_callFunc_body (oo_depth n)\<rparr>"

subsection \<open>Modulatable data\<close>

datatype modulatable =
    NumberModulatable int
  | ListModulatable "modulatable list"
  | ConsModulatable modulatable modulatable

fun forceModulatable :: "nat \<Rightarrow> oo_expr \<Rightarrow> oo_state \<Rightarrow> modulatable oo_result"
  and forceModulatable_loop ::
    "nat \<Rightarrow> modulatable list \<Rightarrow> oo_value \<Rightarrow> oo_state \<Rightarrow> modulatable oo_result"
where
  "forceModulatable 0 e s = Timeout"
| "forceModulatable (Suc n) e s =
     seq (forceValue (oo_depth n) e s) (\<lambda>cur s1. forceModulatable_loop n [] cur s1)"
| "forceModulatable_loop 0 elems cur s = Timeout"
| "forceModulatable_loop (Suc n) elems cur s =
     (case cur of
        OONumberValue i \<Rightarrow>
          reduceRight (\<lambda>cdr car. ConsModulatable car cdr) (elems @ [NumberModulatable i]) s
      | OONilValue \<Rightarrow> Ok (ListModulatable elems) s
      | OOConsValue _ _ \<Rightarrow>
          seq (value_uncons cur s) (\<lambda>p s1.
          seq (forceModulatable n (fst p) s1) (\<lambda>d s2.
          seq (forceValue (oo_depth n) (snd p) s2) (\<lambda>cur' s3.
            forceModulatable_loop n (elems @ [d]) cur' s3)))
      | OOFuncValue _ \<Rightarrow> Err NotModulatable)"

text \<open>
  The classes of \<open>Modulatable\<close> have the fields of the interfaces of \<open>StaticData\<close>: under
  the structural typing of the source a \<open>Modulatable\<close> is a \<open>StaticData\<close>.
\<close>

fun asStaticData :: "modulatable \<Rightarrow> staticData" where
  "asStaticData (NumberModulatable i) = NumberData i"
| "asStaticData (ListModulatable elems) = ListData (map asStaticData elems)"
| "asStaticData (ConsModulatable car cdr) = ConsData (asStaticData car) (asStaticData cdr)"

section \<open>Auxiliary notions\<close>

subsection \<open>Depth bounds\<close>

text \<open>
  \<open>le_result x y\<close>: the outcome \<open>y\<close> agrees with \<open>x\<close> unless \<open>x\<close> ran out of depth.
  \<open>le_funcs r r'\<close>: every function of the table \<open>r'\<close> returns what it returns in \<open>r\<close>,
  where it returns in \<open>r\<close>.
\<close>

definition le_result :: "('a, 's) outcome \<Rightarrow> ('a, 's) outcome \<Rightarrow> bool" where
  "le_result x y \<longleftrightarrow> x = Timeout \<or> x = y"

definition le_funcs :: "funcs \<Rightarrow> funcs \<Rightarrow> bool" where
  "le_funcs r r' \<longleftrightarrow>
     (\<forall>e s. le_result (evaluate r e s) (evaluate r' e s)) \<and>
     (\<forall>f s. le_result (runThunk r f s) (runThunk r' f s)) \<and>
     (\<forall>a b s. le_result (apply' r a b s) (apply' r' a b s)) \<and>
     (\<forall>xs s. le_result (makeApply r xs s) (makeApply r' xs s)) \<and>
     (\<forall>a b s. le_result (makeApplyStep r a b s) (makeApplyStep r' a b s)) \<and>
     (\<forall>g x s. le_result (callFunc r g x s) (callFunc r' g x s)) \<and>
     (\<forall>e s. le_result (makeCar r e s) (makeCar r' e s)) \<and>
     (\<forall>e s. le_result (makeCdr r e s) (makeCdr r' e s)) \<and>
     (\<forall>e s. le_result (isNil r e s) (isNil r' e s)) \<and>
     (\<forall>g s. le_result (isNilSlow r g s) (isNilSlow r' g s))"

definition le_oo_funcs :: "oo_funcs \<Rightarrow> oo_funcs \<Rightarrow> bool" where
  "le_oo_funcs r r' \<longleftrightarrow>
     (\<forall>e s. le_result (forceValue r e s) (forceValue r' e s)) \<and>
     (\<forall>f s. le_result (oo_runThunk r f s) (oo_runThunk r' f s)) \<and>
     (\<forall>a b s. le_result (applyMethod r a b s) (applyMethod r' a b s)) \<and>
     (\<forall>g x s. le_result (oo_callFunc r g x s) (oo_callFunc r' g x s))"

subsection \<open>Stores that come later\<close>

text \<open>
  \<open>later s s'\<close>: the store \<open>s'\<close> may come after \<open>s\<close>. No thunk object is lost, a
  thunk that holds a cache in \<open>s\<close> is the same in \<open>s'\<close>, the counter has not gone down and
  the environments are the same. \<open>keeps r\<close>: every function of the table returns a later
  store. \<open>forced s v\<close> is the store after one thunk was made in \<open>s\<close> and forced to \<open>v\<close>.
\<close>

definition later :: "state \<Rightarrow> state \<Rightarrow> bool" where
  "later s s' \<longleftrightarrow>
     length (heap s) \<le> length (heap s') \<and>
     (\<forall>a. cache (thunkAt s a) \<noteq> None \<longrightarrow> thunkAt s' a = thunkAt s a) \<and>
     evalCounter s \<le> evalCounter s' \<and>
     envMaps s' = envMaps s"

definition keeps :: "funcs \<Rightarrow> bool" where
  "keeps r \<longleftrightarrow>
     (\<forall>e s v s'. evaluate r e s = Ok v s' \<longrightarrow> later s s') \<and>
     (\<forall>f s v s'. runThunk r f s = Ok v s' \<longrightarrow> later s s') \<and>
     (\<forall>a b s v s'. apply' r a b s = Ok v s' \<longrightarrow> later s s') \<and>
     (\<forall>xs s v s'. makeApply r xs s = Ok v s' \<longrightarrow> later s s') \<and>
     (\<forall>a b s v s'. makeApplyStep r a b s = Ok v s' \<longrightarrow> later s s') \<and>
     (\<forall>g x s v s'. callFunc r g x s = Ok v s' \<longrightarrow> later s s') \<and>
     (\<forall>e s v s'. makeCar r e s = Ok v s' \<longrightarrow> later s s') \<and>
     (\<forall>e s v s'. makeCdr r e s = Ok v s' \<longrightarrow> later s s') \<and>
     (\<forall>e s v s'. isNil r e s = Ok v s' \<longrightarrow> later s s') \<and>
     (\<forall>g s v s'. isNilSlow r g s = Ok v s' \<longrightarrow> later s s')"

definition oo_later :: "oo_state \<Rightarrow> oo_state \<Rightarrow> bool" where
  "oo_later s s' \<longleftrightarrow>
     length (oo_heap s) \<le> length (oo_heap s') \<and>
     (\<forall>a. oo_cache (oo_thunkAt s a) \<noteq> None \<longrightarrow> oo_thunkAt s' a = oo_thunkAt s a) \<and>
     counter s \<le> counter s' \<and>
     oo_envMaps s' = oo_envMaps s"

definition oo_keeps :: "oo_funcs \<Rightarrow> bool" where
  "oo_keeps r \<longleftrightarrow>
     (\<forall>e s v s'. forceValue r e s = Ok v s' \<longrightarrow> oo_later s s') \<and>
     (\<forall>f s v s'. oo_runThunk r f s = Ok v s' \<longrightarrow> oo_later s s') \<and>
     (\<forall>a b s v s'. applyMethod r a b s = Ok v s' \<longrightarrow> oo_later s s') \<and>
     (\<forall>g x s v s'. oo_callFunc r g x s = Ok v s' \<longrightarrow> oo_later s s')"



subsection \<open>Tagged data\<close>

text \<open>
  Tagged data: what a value graph of numbers, nil and pairs holds. \<open>represents s t e\<close>:
  in the store \<open>s\<close> the expression \<open>e\<close> is a value, or a thunk that holds a cache, and
  its value graph is the tagged data \<open>t\<close>, functions nowhere and no thunk unforced.
  \<open>canonical t\<close> is the canonical tree of \<open>t\<close>: a spine that ends in nil is a list, a
  spine that ends in a number is a chain of pairs nested to the right; \<open>finish\<close> closes
  a spine of which \<open>elems\<close> are walked already. \<open>cost t\<close> is a depth bound that suffices
  to walk \<open>t\<close>. \<open>pairChain xs z\<close> is the chain of pairs of the numbers \<open>xs\<close> that ends in
  \<open>z\<close>, \<open>tchain xs z\<close> the tagged data it holds.
\<close>

datatype tagged = TNum int | TNil | TCons tagged tagged

definition forcedValue :: "state \<Rightarrow> expr \<Rightarrow> val option" where
  "forcedValue s e = (case e of V v \<Rightarrow> Some v | Thunk a \<Rightarrow> cache (thunkAt s a))"

fun represents :: "state \<Rightarrow> tagged \<Rightarrow> expr \<Rightarrow> bool" where
  "represents s (TNum i) e = (forcedValue s e = Some (NumberValue i))"
| "represents s TNil e = (forcedValue s e = Some NilValue)"
| "represents s (TCons ta tb) e =
     (case forcedValue s e of
        Some (ConsValue a b) \<Rightarrow> represents s ta a \<and> represents s tb b
      | _ \<Rightarrow> False)"

fun canonical :: "tagged \<Rightarrow> staticData" where
  "canonical (TNum i) = NumberData i"
| "canonical TNil = ListData []"
| "canonical (TCons a b) =
     (case canonical b of
        ListData ds \<Rightarrow> ListData (canonical a # ds)
      | d \<Rightarrow> ConsData (canonical a) d)"

fun cost :: "tagged \<Rightarrow> nat" where
  "cost (TNum i) = 8"
| "cost TNil = 8"
| "cost (TCons a b) = Suc (cost a + cost b)"

definition finish :: "staticData list \<Rightarrow> staticData \<Rightarrow> staticData" where
  "finish elems d = (case d of ListData ds \<Rightarrow> ListData (elems @ ds) | _ \<Rightarrow> foldr ConsData elems d)"

definition oo_forcedValue :: "oo_state \<Rightarrow> oo_expr \<Rightarrow> oo_value option" where
  "oo_forcedValue s e = (case e of OOV v \<Rightarrow> Some v | OOThunk a \<Rightarrow> oo_cache (oo_thunkAt s a))"

fun oo_represents :: "oo_state \<Rightarrow> tagged \<Rightarrow> oo_expr \<Rightarrow> bool" where
  "oo_represents s (TNum i) e = (oo_forcedValue s e = Some (OONumberValue i))"
| "oo_represents s TNil e = (oo_forcedValue s e = Some OONilValue)"
| "oo_represents s (TCons ta tb) e =
     (case oo_forcedValue s e of
        Some (OOConsValue a b) \<Rightarrow> oo_represents s ta a \<and> oo_represents s tb b
      | _ \<Rightarrow> False)"

fun canonicalM :: "tagged \<Rightarrow> modulatable" where
  "canonicalM (TNum i) = NumberModulatable i"
| "canonicalM TNil = ListModulatable []"
| "canonicalM (TCons a b) =
     (case canonicalM b of
        ListModulatable ds \<Rightarrow> ListModulatable (canonicalM a # ds)
      | d \<Rightarrow> ConsModulatable (canonicalM a) d)"

definition finishM :: "modulatable list \<Rightarrow> modulatable \<Rightarrow> modulatable" where
  "finishM elems d =
     (case d of ListModulatable ds \<Rightarrow> ListModulatable (elems @ ds) | _ \<Rightarrow> foldr ConsModulatable elems d)"

fun pairChain :: "int list \<Rightarrow> expr \<Rightarrow> expr" where
  "pairChain [] z = z"
| "pairChain (x # xs) z = V (makeCons (V (makeNumber x)) (pairChain xs z))"

fun oo_pairChain :: "int list \<Rightarrow> oo_expr \<Rightarrow> oo_expr" where
  "oo_pairChain [] z = z"
| "oo_pairChain (x # xs) z = OOV (OOConsValue (OOV (OONumberValue x)) (oo_pairChain xs z))"

fun tchain :: "int list \<Rightarrow> tagged \<Rightarrow> tagged" where
  "tchain [] z = z"
| "tchain (x # xs) z = TCons (TNum x) (tchain xs z)"

text \<open>
  \<open>walk n t e s\<close> forces the value graph of \<open>e\<close> from the store \<open>s\<close>, in the order of
  the canonicalization passes: the expression itself, then for a pair its first field
  with all that hangs below it, then its second field. It returns the store that is
  left when every forced value is the number, the nil or the pair that the tagged data
  \<open>t\<close> has at this place, and \<open>None\<close> when a force does not return within the depth
  bound \<open>n\<close>, throws, or returns another value (a function among them). Thunks need
  not be forced beforehand. \<open>oo_walk\<close> is the same for the class-based variant.
\<close>

primrec walk :: "nat \<Rightarrow> tagged \<Rightarrow> expr \<Rightarrow> state \<Rightarrow> state option" where
  "walk n (TNum i) e s =
     (case evaluate (depth n) e s of
        Ok v s1 \<Rightarrow> (case v of NumberValue j \<Rightarrow> if j = i then Some s1 else None | _ \<Rightarrow> None)
      | _ \<Rightarrow> None)"
| "walk n TNil e s =
     (case evaluate (depth n) e s of
        Ok v s1 \<Rightarrow> (case v of NilValue \<Rightarrow> Some s1 | _ \<Rightarrow> None)
      | _ \<Rightarrow> None)"
| "walk n (TCons ta tb) e s =
     (case evaluate (depth n) e s of
        Ok v s1 \<Rightarrow>
          (case v of
             ConsValue a b \<Rightarrow> (case walk n ta a s1 of Some s2 \<Rightarrow> walk n tb b s2 | None \<Rightarrow> None)
           | _ \<Rightarrow> None)
      | _ \<Rightarrow> None)"

primrec oo_walk :: "nat \<Rightarrow> tagged \<Rightarrow> oo_expr \<Rightarrow> oo_state \<Rightarrow> oo_state option" where
  "oo_walk n (TNum i) e s =
     (case forceValue (oo_depth n) e s of
        Ok v s1 \<Rightarrow> (case v of OONumberValue j \<Rightarrow> if j = i then Some s1 else None | _ \<Rightarrow> None)
      | _ \<Rightarrow> None)"
| "oo_walk n TNil e s =
     (case forceValue (oo_depth n) e s of
        Ok v s1 \<Rightarrow> (case v of OONilValue \<Rightarrow> Some s1 | _ \<Rightarrow> None)
      | _ \<Rightarrow> None)"
| "oo_walk n (TCons ta tb) e s =
     (case forceValue (oo_depth n) e s of
        Ok v s1 \<Rightarrow>
          (case v of
             OOConsValue a b \<Rightarrow>
               (case oo_walk n ta a s1 of Some s2 \<Rightarrow> oo_walk n tb b s2 | None \<Rightarrow> None)
           | _ \<Rightarrow> None)
      | _ \<Rightarrow> None)"

subsection \<open>The stores of the examples\<close>

text \<open>
  A function that behaves as the pair of \<open>1\<close> and \<open>2\<close>, built from the combinators
  \<open>c\<close> and \<open>i\<close> only: applied to \<open>f\<close> it is \<open>f\<close> applied to \<open>1\<close> and \<open>2\<close>.
\<close>

definition pairLike :: closure where
  "pairLike =
     Func3_2 BuiltinC
       (V (FuncValue (Func3_2 BuiltinC (V (makeFunc BuiltinI)) (V (makeNumber 1)))))
       (V (makeNumber 2))"

text \<open>
  The empty store; a store with one thunk, for \<open>3 + 4\<close>, before and after it is forced;
  the stores of a forward reference, with one environment in which \<open>g\<close> is referred to
  before it is defined; stores with one forced thunk that holds the pair of \<open>1\<close> and nil.
\<close>

definition emptyState :: state where
  "emptyState = \<lparr>heap = [], evalCounter = 0, envMaps = []\<rparr>"

definition oo_emptyState :: oo_state where
  "oo_emptyState = \<lparr>oo_heap = [], counter = 0, oo_envMaps = []\<rparr>"

definition oneThunk :: state where
  "oneThunk =
     \<lparr>heap = [\<lparr>func = Some (AddRecipe (V (makeNumber 3)) (V (makeNumber 4))), cache = None\<rparr>],
      evalCounter = 0, envMaps = []\<rparr>"

definition oneThunkForced :: state where
  "oneThunkForced =
     \<lparr>heap = [\<lparr>func = None, cache = Some (NumberValue 7)\<rparr>], evalCounter = 1, envMaps = []\<rparr>"

definition oo_oneThunk :: oo_state where
  "oo_oneThunk =
     \<lparr>oo_heap = [\<lparr>oo_func = Some (OOAddRecipe (OOV (OONumberValue 3)) (OOV (OONumberValue 4))),
         oo_cache = None\<rparr>],
      counter = 0, oo_envMaps = []\<rparr>"

definition oo_oneThunkForced :: oo_state where
  "oo_oneThunkForced =
     \<lparr>oo_heap = [\<lparr>oo_func = None, oo_cache = Some (OONumberValue 7)\<rparr>],
      counter = 1, oo_envMaps = []\<rparr>"

definition forwardEnv :: environment where
  "forwardEnv = Environment 0 None"

definition forwardStart :: state where
  "forwardStart = \<lparr>heap = [], evalCounter = 0, envMaps = [[]]\<rparr>"

definition forwardReferred :: state where
  "forwardReferred =
     \<lparr>heap = [\<lparr>func = Some (ReferenceRecipe forwardEnv ''g''), cache = None\<rparr>],
      evalCounter = 0, envMaps = [[]]\<rparr>"

definition forwardDefined :: state where
  "forwardDefined =
     \<lparr>heap = [\<lparr>func = Some (ReferenceRecipe forwardEnv ''g''), cache = None\<rparr>],
      evalCounter = 0, envMaps = [[(''g'', V (makeNumber 42))]]\<rparr>"

definition forwardForced :: state where
  "forwardForced =
     \<lparr>heap = [\<lparr>func = None, cache = Some (NumberValue 42)\<rparr>],
      evalCounter = 1, envMaps = [[(''g'', V (makeNumber 42))]]\<rparr>"

definition oo_forwardStart :: oo_state where
  "oo_forwardStart = \<lparr>oo_heap = [], counter = 0, oo_envMaps = [[]]\<rparr>"

definition oo_forwardReferred :: oo_state where
  "oo_forwardReferred =
     \<lparr>oo_heap = [\<lparr>oo_func = Some (OOReferenceRecipe forwardEnv ''g''), oo_cache = None\<rparr>],
      counter = 0, oo_envMaps = [[]]\<rparr>"

definition oo_forwardDefined :: oo_state where
  "oo_forwardDefined =
     \<lparr>oo_heap = [\<lparr>oo_func = Some (OOReferenceRecipe forwardEnv ''g''), oo_cache = None\<rparr>],
      counter = 0, oo_envMaps = [[(''g'', OOV (OONumberValue 42))]]\<rparr>"

definition oo_forwardForced :: oo_state where
  "oo_forwardForced =
     \<lparr>oo_heap = [\<lparr>oo_func = None, oo_cache = Some (OONumberValue 42)\<rparr>],
      counter = 1, oo_envMaps = [[(''g'', OOV (OONumberValue 42))]]\<rparr>"

definition pairStore :: state where
  "pairStore =
     \<lparr>heap = [\<lparr>func = None, cache = Some (makeCons (V (makeNumber 1)) (V makeNil))\<rparr>],
      evalCounter = 1, envMaps = []\<rparr>"

definition oo_pairStore :: oo_state where
  "oo_pairStore =
     \<lparr>oo_heap = [\<lparr>oo_func = None,
         oo_cache = Some (OOConsValue (OOV (OONumberValue 1)) (OOV OONilValue))\<rparr>],
      counter = 1, oo_envMaps = []\<rparr>"

section \<open>The depth bound only cuts computations off\<close>

declare depth.simps [simp del]

lemma depth_0 [simp]:
  "evaluate (depth 0) e s = Timeout"
  "runThunk (depth 0) f s = Timeout"
  "apply' (depth 0) lhs rhs s = Timeout"
  "makeApply (depth 0) args s = Timeout"
  "makeApplyStep (depth 0) lhs rhs s = Timeout"
  "callFunc (depth 0) g x s = Timeout"
  "makeCar (depth 0) e s = Timeout"
  "makeCdr (depth 0) e s = Timeout"
  "isNil (depth 0) e s = Timeout"
  "isNilSlow (depth 0) g s = Timeout"
  by (simp_all add: depth.simps)

lemma depth_Suc [simp]:
  "evaluate (depth (Suc n)) = evaluate_body (depth n)"
  "runThunk (depth (Suc n)) = runThunk_body (depth n)"
  "apply' (depth (Suc n)) = apply_body (depth n)"
  "makeApply (depth (Suc n)) = makeApply_body (depth n)"
  "makeApplyStep (depth (Suc n)) = makeApplyStep_body (depth n)"
  "callFunc (depth (Suc n)) = callFunc_body (depth n)"
  "makeCar (depth (Suc n)) = makeCar_body (depth n)"
  "makeCdr (depth (Suc n)) = makeCdr_body (depth n)"
  "isNil (depth (Suc n)) = isNil_body (depth n)"
  "isNilSlow (depth (Suc n)) = isNilSlow_body (depth n)"
  by (simp_all add: depth.simps)

lemma le_result_refl [simp]: "le_result x x"
  by (simp add: le_result_def)

lemma le_result_Timeout [simp]: "le_result Timeout x"
  by (simp add: le_result_def)

lemma seq_mono:
  assumes "le_result m m'" and "\<And>a s. le_result (k a s) (k' a s)"
  shows "le_result (seq m k) (seq m' k')"
proof (cases m)
  case (Ok a s)
  then have "m' = Ok a s" using assms(1) by (simp add: le_result_def)
  then show ?thesis using Ok assms(2) [of a s] by simp
next
  case (Err e)
  then have "m' = Err e" using assms(1) by (simp add: le_result_def)
  then show ?thesis using Err by simp
next
  case Timeout
  then show ?thesis by simp
qed

lemma reduceFrom_mono:
  assumes "\<And>a b s. le_result (f a b s) (g a b s)"
  shows "le_result (reduceFrom f acc xs s) (reduceFrom g acc xs s)"
  by (induction xs arbitrary: acc s) (auto intro!: seq_mono assms)

lemma reduce_mono:
  assumes "\<And>a b s. le_result (f a b s) (g a b s)"
  shows "le_result (reduce f xs s) (reduce g xs s)"
  by (cases xs) (auto intro!: reduceFrom_mono assms)

lemma evaluate_body_mono:
  "le_funcs r r' \<Longrightarrow> le_result (evaluate_body r e s) (evaluate_body r' e s)"
  unfolding evaluate_body_def le_funcs_def
  by (auto intro!: seq_mono split: expr.split option.split)

lemma runThunk_body_mono:
  "le_funcs r r' \<Longrightarrow> le_result (runThunk_body r f s) (runThunk_body r' f s)"
  unfolding runThunk_body_def le_funcs_def
  by (auto intro!: seq_mono split: recipe.split option.split)

lemma apply_body_mono:
  "le_funcs r r' \<Longrightarrow> le_result (apply_body r a b s) (apply_body r' a b s)"
  unfolding apply_body_def le_funcs_def
  by (auto intro!: seq_mono split: val.split)

lemma makeApply_body_mono:
  "le_funcs r r' \<Longrightarrow> le_result (makeApply_body r xs s) (makeApply_body r' xs s)"
  unfolding makeApply_body_def le_funcs_def
  by (auto intro!: reduce_mono)

lemma makeApplyStep_body_mono:
  "le_funcs r r' \<Longrightarrow> le_result (makeApplyStep_body r a b s) (makeApplyStep_body r' a b s)"
  unfolding makeApplyStep_body_def le_funcs_def
  by (auto split: expr.split val.split)

lemma callFunc_body_mono:
  "le_funcs r r' \<Longrightarrow> le_result (callFunc_body r g x s) (callFunc_body r' g x s)"
  unfolding callFunc_body_def call1_def call3_def le_funcs_def
  by (auto intro!: seq_mono split: closure.split fn1.split fn3.split)

lemma makeCar_body_mono:
  "le_funcs r r' \<Longrightarrow> le_result (makeCar_body r e s) (makeCar_body r' e s)"
  unfolding makeCar_body_def le_funcs_def by auto

lemma makeCdr_body_mono:
  "le_funcs r r' \<Longrightarrow> le_result (makeCdr_body r e s) (makeCdr_body r' e s)"
  unfolding makeCdr_body_def le_funcs_def by auto

lemma isNil_body_mono:
  "le_funcs r r' \<Longrightarrow> le_result (isNil_body r e s) (isNil_body r' e s)"
  unfolding isNil_body_def le_funcs_def
  by (auto intro!: seq_mono split: val.split)

lemma isNilSlow_body_mono:
  "le_funcs r r' \<Longrightarrow> le_result (isNilSlow_body r g s) (isNilSlow_body r' g s)"
  unfolding isNilSlow_body_def le_funcs_def
  by (auto intro!: seq_mono split: val.split)

lemmas body_mono = evaluate_body_mono runThunk_body_mono apply_body_mono makeApply_body_mono
  makeApplyStep_body_mono callFunc_body_mono makeCar_body_mono makeCdr_body_mono
  isNil_body_mono isNilSlow_body_mono

lemma depth_mono_Suc: "le_funcs (depth n) (depth (Suc n))"
proof (induction n)
  case 0
  show ?case by (simp add: le_funcs_def)
next
  case (Suc n)
  show ?case
    unfolding le_funcs_def [of "depth (Suc n)"]
    by (simp add: body_mono [OF Suc])
qed

lemma le_funcs_refl: "le_funcs r r"
  by (simp add: le_funcs_def)

lemma le_result_trans: "le_result x y \<Longrightarrow> le_result y z \<Longrightarrow> le_result x z"
  by (auto simp: le_result_def)

lemma le_funcs_trans: "le_funcs a b \<Longrightarrow> le_funcs b c \<Longrightarrow> le_funcs a c"
  unfolding le_funcs_def by (meson le_result_trans)

lemma depth_mono: "n \<le> m \<Longrightarrow> le_funcs (depth n) (depth m)"
  by (induction m) (auto simp: le_Suc_eq le_funcs_refl intro: le_funcs_trans depth_mono_Suc)


lemma le_result_eq: "le_result x y \<Longrightarrow> x \<noteq> Timeout \<Longrightarrow> y = x"
  by (auto simp: le_result_def)

lemma evaluate_mono:
  assumes "n \<le> m" and "evaluate (depth n) e s \<noteq> Timeout"
  shows "evaluate (depth m) e s = evaluate (depth n) e s"
proof -
  have "le_result (evaluate (depth n) e s) (evaluate (depth m) e s)"
    using depth_mono [OF assms(1)] by (simp add: le_funcs_def)
  then show ?thesis using assms(2) by (rule le_result_eq)
qed

lemma makeApply_mono:
  assumes "n \<le> m" and "makeApply (depth n) xs s \<noteq> Timeout"
  shows "makeApply (depth m) xs s = makeApply (depth n) xs s"
proof -
  have "le_result (makeApply (depth n) xs s) (makeApply (depth m) xs s)"
    using depth_mono [OF assms(1)] by (simp add: le_funcs_def)
  then show ?thesis using assms(2) by (rule le_result_eq)
qed

lemma seq_Ok_right [simp]: "seq m Ok = m"
  by (cases m) simp_all

lemma seq_assoc: "seq (seq m k) h = seq m (\<lambda>a s. seq (k a s) h)"
  by (cases m) simp_all

lemma reduceFrom_Nil [simp]: "reduceFrom f acc [] = Ok acc"
  by (rule ext) simp

lemma reduceFrom_single [simp]: "reduceFrom f acc [x] = f acc x"
  by (rule ext) simp

lemma reduceFrom_two: "reduceFrom f acc [x, y] = (\<lambda>s. seq (f acc x s) (\<lambda>a s'. f a y s'))"
  by (rule ext) simp


lemma evaluate_le: "n \<le> m \<Longrightarrow> le_result (evaluate (depth n) e s) (evaluate (depth m) e s)"
  using depth_mono [of n m] by (simp add: le_funcs_def)

lemma makeApply_le: "n \<le> m \<Longrightarrow> le_result (makeApply (depth n) xs s) (makeApply (depth m) xs s)"
  using depth_mono [of n m] by (simp add: le_funcs_def)

subsection \<open>The class-based variant\<close>

declare oo_depth.simps [simp del]

lemma oo_depth_0 [simp]:
  "forceValue (oo_depth 0) e s = Timeout"
  "oo_runThunk (oo_depth 0) f s = Timeout"
  "applyMethod (oo_depth 0) e arg s = Timeout"
  "oo_callFunc (oo_depth 0) g x s = Timeout"
  by (simp_all add: oo_depth.simps)

lemma oo_depth_Suc [simp]:
  "forceValue (oo_depth (Suc n)) = forceValue_body (oo_depth n)"
  "oo_runThunk (oo_depth (Suc n)) = oo_runThunk_body (oo_depth n)"
  "applyMethod (oo_depth (Suc n)) = applyMethod_body (oo_depth n)"
  "oo_callFunc (oo_depth (Suc n)) = oo_callFunc_body (oo_depth n)"
  by (simp_all add: oo_depth.simps)

lemma oo_thunkAt_new [simp]:
  "oo_thunkAt (s\<lparr>oo_heap := oo_heap s @ [c]\<rparr>) (length (oo_heap s)) = c"
  by (simp add: oo_thunkAt_def)

lemma oo_thunkAt_counter [simp]:
  "oo_thunkAt (s\<lparr>counter := k\<rparr>) a = oo_thunkAt s a"
  by (simp add: oo_thunkAt_def)

lemma forceValue_body_mono:
  "le_oo_funcs r r' \<Longrightarrow> le_result (forceValue_body r e s) (forceValue_body r' e s)"
  unfolding forceValue_body_def le_oo_funcs_def
  by (auto intro!: seq_mono split: oo_expr.split option.split)

lemma oo_runThunk_body_mono:
  "le_oo_funcs r r' \<Longrightarrow> le_result (oo_runThunk_body r f s) (oo_runThunk_body r' f s)"
  unfolding oo_runThunk_body_def le_oo_funcs_def
  by (auto intro!: seq_mono split: oo_recipe.split option.split)

lemma applyMethod_body_mono:
  "le_oo_funcs r r' \<Longrightarrow> le_result (applyMethod_body r a b s) (applyMethod_body r' a b s)"
  unfolding applyMethod_body_def le_oo_funcs_def
  by (auto intro!: seq_mono split: oo_expr.split oo_value.split option.split)

lemma oo_callFunc_body_mono:
  "le_oo_funcs r r' \<Longrightarrow> le_result (oo_callFunc_body r g x s) (oo_callFunc_body r' g x s)"
  unfolding oo_callFunc_body_def oo_call3_def le_oo_funcs_def
  by (auto intro!: seq_mono split: oo_closure.split oo_fn3.split)

lemma oo_depth_mono_Suc: "le_oo_funcs (oo_depth n) (oo_depth (Suc n))"
proof (induction n)
  case 0
  show ?case by (simp add: le_oo_funcs_def)
next
  case (Suc n)
  show ?case
    unfolding le_oo_funcs_def [of "oo_depth (Suc n)"]
    by (simp add: forceValue_body_mono [OF Suc] oo_runThunk_body_mono [OF Suc]
        applyMethod_body_mono [OF Suc] oo_callFunc_body_mono [OF Suc])
qed

lemma le_oo_funcs_refl: "le_oo_funcs r r"
  by (simp add: le_oo_funcs_def)

lemma le_oo_funcs_trans: "le_oo_funcs a b \<Longrightarrow> le_oo_funcs b c \<Longrightarrow> le_oo_funcs a c"
  unfolding le_oo_funcs_def by (meson le_result_trans)

lemma oo_depth_mono: "n \<le> m \<Longrightarrow> le_oo_funcs (oo_depth n) (oo_depth m)"
  by (induction m) (auto simp: le_Suc_eq le_oo_funcs_refl intro: le_oo_funcs_trans oo_depth_mono_Suc)

lemma forceValue_le:
  "n \<le> m \<Longrightarrow> le_result (forceValue (oo_depth n) e s) (forceValue (oo_depth m) e s)"
  using oo_depth_mono [of n m] by (simp add: le_oo_funcs_def)

lemma applyMethod_le:
  "n \<le> m \<Longrightarrow> le_result (applyMethod (oo_depth n) a b s) (applyMethod (oo_depth m) a b s)"
  using oo_depth_mono [of n m] by (simp add: le_oo_funcs_def)

section \<open>Application\<close>


lemma makeApply_cons_unfold:
  "makeApply (depth (Suc (Suc (Suc n)))) [V (makeCons a b), f] s =
     seq (makeApply (depth (Suc n)) [f, a] s) (\<lambda>fa s1. makeApply (depth (Suc n)) [fa, b] s1)"
  by (simp add: makeApply_body_def makeApplyStep_body_def makeCons_def seq_assoc)

lemma makeApply_cons_small:
  assumes "n < 3"
  shows "makeApply (depth n) [V (makeCons a b), f] s = Timeout"
proof -
  from assms consider "n = 0" | "n = Suc 0" | "n = Suc (Suc 0)" by linarith
  then show ?thesis
    by cases (simp_all add: makeApply_body_def makeApplyStep_body_def makeCons_def)
qed

lemma pair_forced:
  assumes out: "out \<noteq> Timeout"
  shows "(\<exists>k. seq (makeApply (depth k) [V (makeCons a b), f] s) (evaluate (depth k)) = out) \<longleftrightarrow>
     (\<exists>k. seq (seq (makeApply (depth k) [f, a] s) (\<lambda>fa s1. makeApply (depth k) [fa, b] s1))
            (evaluate (depth k)) = out)"
proof
  assume "\<exists>k. seq (makeApply (depth k) [V (makeCons a b), f] s) (evaluate (depth k)) = out"
  then obtain k where k: "seq (makeApply (depth k) [V (makeCons a b), f] s) (evaluate (depth k)) = out"
    by blast
  have "\<not> k < 3" using k out makeApply_cons_small [of k a b f s] by auto
  then have "3 \<le> k" by simp
  then obtain j where "k = 3 + j" using le_Suc_ex by blast
  then have j: "k = Suc (Suc (Suc j))" by simp
  have le: "Suc j \<le> k" using j by simp
  have "le_result
      (seq (seq (makeApply (depth (Suc j)) [f, a] s) (\<lambda>fa s1. makeApply (depth (Suc j)) [fa, b] s1))
         (evaluate (depth k)))
      (seq (seq (makeApply (depth k) [f, a] s) (\<lambda>fa s1. makeApply (depth k) [fa, b] s1))
         (evaluate (depth k)))"
    by (intro seq_mono makeApply_le le le_result_refl)
  moreover have "seq (seq (makeApply (depth (Suc j)) [f, a] s)
      (\<lambda>fa s1. makeApply (depth (Suc j)) [fa, b] s1)) (evaluate (depth k)) = out"
    using k makeApply_cons_unfold [of j a b f s] j by simp
  ultimately have "seq (seq (makeApply (depth k) [f, a] s)
      (\<lambda>fa s1. makeApply (depth k) [fa, b] s1)) (evaluate (depth k)) = out"
    using out le_result_eq by fastforce
  then show "\<exists>k. seq (seq (makeApply (depth k) [f, a] s)
      (\<lambda>fa s1. makeApply (depth k) [fa, b] s1)) (evaluate (depth k)) = out"
    by (rule exI)
next
  assume "\<exists>k. seq (seq (makeApply (depth k) [f, a] s) (\<lambda>fa s1. makeApply (depth k) [fa, b] s1))
               (evaluate (depth k)) = out"
  then obtain k where k: "seq (seq (makeApply (depth k) [f, a] s)
      (\<lambda>fa s1. makeApply (depth k) [fa, b] s1)) (evaluate (depth k)) = out"
    by blast
  have "k \<noteq> 0" using k out by (cases k) auto
  then obtain j where j: "k = Suc j" by (cases k) auto
  have "le_result
      (seq (seq (makeApply (depth k) [f, a] s) (\<lambda>fa s1. makeApply (depth k) [fa, b] s1))
         (evaluate (depth k)))
      (seq (seq (makeApply (depth k) [f, a] s) (\<lambda>fa s1. makeApply (depth k) [fa, b] s1))
         (evaluate (depth (Suc (Suc k)))))"
    by (intro seq_mono evaluate_le le_result_refl) simp
  then have "seq (seq (makeApply (depth k) [f, a] s) (\<lambda>fa s1. makeApply (depth k) [fa, b] s1))
         (evaluate (depth (Suc (Suc k)))) = out"
    using k out le_result_eq by fastforce
  then have "seq (makeApply (depth (Suc (Suc k))) [V (makeCons a b), f] s)
      (evaluate (depth (Suc (Suc k)))) = out"
    using makeApply_cons_unfold [of j a b f s] j by simp
  then show "\<exists>k. seq (makeApply (depth k) [V (makeCons a b), f] s) (evaluate (depth k)) = out"
    by (rule exI)
qed


lemma applyMethod_cons_unfold:
  "applyMethod (oo_depth (Suc n)) (OOV (OOConsValue a b)) f s =
     seq (applyMethod (oo_depth n) f a s) (\<lambda>fa s1. applyMethod (oo_depth n) fa b s1)"
  by (simp add: applyMethod_body_def)

lemma oo_pair_forced:
  assumes "out \<noteq> Timeout"
  shows "(\<exists>k. seq (applyMethod (oo_depth k) (OOV (OOConsValue a b)) f s) (forceValue (oo_depth k)) = out) \<longleftrightarrow>
     (\<exists>k. seq (seq (applyMethod (oo_depth k) f a s) (\<lambda>fa s1. applyMethod (oo_depth k) fa b s1))
            (forceValue (oo_depth k)) = out)"
proof
  assume "\<exists>k. seq (applyMethod (oo_depth k) (OOV (OOConsValue a b)) f s) (forceValue (oo_depth k)) = out"
  then obtain k where k: "seq (applyMethod (oo_depth k) (OOV (OOConsValue a b)) f s)
      (forceValue (oo_depth k)) = out" by blast
  have "k \<noteq> 0" using k assms by (cases k) auto
  then obtain j where j: "k = Suc j" by (cases k) auto
  have le: "j \<le> k" using j by simp
  have "le_result
      (seq (seq (applyMethod (oo_depth j) f a s) (\<lambda>fa s1. applyMethod (oo_depth j) fa b s1))
         (forceValue (oo_depth k)))
      (seq (seq (applyMethod (oo_depth k) f a s) (\<lambda>fa s1. applyMethod (oo_depth k) fa b s1))
         (forceValue (oo_depth k)))"
    by (intro seq_mono applyMethod_le le le_result_refl)
  moreover have "seq (seq (applyMethod (oo_depth j) f a s)
      (\<lambda>fa s1. applyMethod (oo_depth j) fa b s1)) (forceValue (oo_depth k)) = out"
    using k applyMethod_cons_unfold [of j a b f s] j by simp
  ultimately have "seq (seq (applyMethod (oo_depth k) f a s)
      (\<lambda>fa s1. applyMethod (oo_depth k) fa b s1)) (forceValue (oo_depth k)) = out"
    using assms le_result_eq by fastforce
  then show "\<exists>k. seq (seq (applyMethod (oo_depth k) f a s)
      (\<lambda>fa s1. applyMethod (oo_depth k) fa b s1)) (forceValue (oo_depth k)) = out"
    by (rule exI)
next
  assume "\<exists>k. seq (seq (applyMethod (oo_depth k) f a s) (\<lambda>fa s1. applyMethod (oo_depth k) fa b s1))
            (forceValue (oo_depth k)) = out"
  then obtain k where k: "seq (seq (applyMethod (oo_depth k) f a s)
      (\<lambda>fa s1. applyMethod (oo_depth k) fa b s1)) (forceValue (oo_depth k)) = out" by blast
  have "le_result
      (seq (seq (applyMethod (oo_depth k) f a s) (\<lambda>fa s1. applyMethod (oo_depth k) fa b s1))
         (forceValue (oo_depth k)))
      (seq (seq (applyMethod (oo_depth k) f a s) (\<lambda>fa s1. applyMethod (oo_depth k) fa b s1))
         (forceValue (oo_depth (Suc k))))"
    by (intro seq_mono forceValue_le le_result_refl) simp
  then have "seq (seq (applyMethod (oo_depth k) f a s) (\<lambda>fa s1. applyMethod (oo_depth k) fa b s1))
         (forceValue (oo_depth (Suc k))) = out"
    using k assms le_result_eq by fastforce
  then have "seq (applyMethod (oo_depth (Suc k)) (OOV (OOConsValue a b)) f s)
      (forceValue (oo_depth (Suc k))) = out"
    using applyMethod_cons_unfold [of k a b f s] by simp
  then show "\<exists>k. seq (applyMethod (oo_depth k) (OOV (OOConsValue a b)) f s) (forceValue (oo_depth k)) = out"
    by (rule exI)
qed

text \<open>
  C2. Pair destructuring. Applying \<open>f\<close> to the pair of \<open>a\<close> and \<open>b\<close> is applying \<open>f\<close> to
  \<open>a\<close> and the result to \<open>b\<close>: in the functional variant \<open>makeApply\<close> on \<open>[pair, f]\<close> is,
  three calls further down, the two nested applications (the same expression and the
  same store); in the class-based variant the method \<open>apply\<close> of a pair is, one call
  further down, the two nested calls of \<open>apply\<close>. So forcing the one returns or throws
  exactly what forcing the other does: every outcome other than running out of depth is
  reached by the one at some depth iff it is reached by the other at some depth.
\<close>

theorem pair_destructuring:
  "makeApply (depth (Suc (Suc (Suc n)))) [V (makeCons a b), f] s =
     seq (makeApply (depth (Suc n)) [f, a] s) (\<lambda>fa s1. makeApply (depth (Suc n)) [fa, b] s1)
   \<and> (out \<noteq> Timeout \<longrightarrow>
       ((\<exists>k. seq (makeApply (depth k) [V (makeCons a b), f] s) (evaluate (depth k)) = out) \<longleftrightarrow>
        (\<exists>k. seq (seq (makeApply (depth k) [f, a] s) (\<lambda>fa s1. makeApply (depth k) [fa, b] s1))
               (evaluate (depth k)) = out)))
   \<and> applyMethod (oo_depth (Suc n)) (OOV (OOConsValue a' b')) f' t =
       seq (applyMethod (oo_depth n) f' a' t) (\<lambda>fa t1. applyMethod (oo_depth n) fa b' t1)
   \<and> (out' \<noteq> Timeout \<longrightarrow>
       ((\<exists>k. seq (applyMethod (oo_depth k) (OOV (OOConsValue a' b')) f' t) (forceValue (oo_depth k)) = out') \<longleftrightarrow>
        (\<exists>k. seq (seq (applyMethod (oo_depth k) f' a' t) (\<lambda>fa t1. applyMethod (oo_depth k) fa b' t1))
               (forceValue (oo_depth k)) = out')))"
proof (intro conjI impI)
  show "makeApply (depth (Suc (Suc (Suc n)))) [V (makeCons a b), f] s =
     seq (makeApply (depth (Suc n)) [f, a] s) (\<lambda>fa s1. makeApply (depth (Suc n)) [fa, b] s1)"
    by (rule makeApply_cons_unfold)
  show "applyMethod (oo_depth (Suc n)) (OOV (OOConsValue a' b')) f' t =
       seq (applyMethod (oo_depth n) f' a' t) (\<lambda>fa t1. applyMethod (oo_depth n) fa b' t1)"
    by (rule applyMethod_cons_unfold)
next
  assume "out \<noteq> Timeout"
  then show "(\<exists>k. seq (makeApply (depth k) [V (makeCons a b), f] s) (evaluate (depth k)) = out) \<longleftrightarrow>
        (\<exists>k. seq (seq (makeApply (depth k) [f, a] s) (\<lambda>fa s1. makeApply (depth k) [fa, b] s1))
               (evaluate (depth k)) = out)"
    by (rule pair_forced)
next
  assume "out' \<noteq> Timeout"
  then show "(\<exists>k. seq (applyMethod (oo_depth k) (OOV (OOConsValue a' b')) f' t) (forceValue (oo_depth k)) = out') \<longleftrightarrow>
        (\<exists>k. seq (seq (applyMethod (oo_depth k) f' a' t) (\<lambda>fa t1. applyMethod (oo_depth k) fa b' t1))
               (forceValue (oo_depth k)) = out')"
    by (rule oo_pair_forced)
qed

theorem pair_destructuring_witness:
  "(\<exists>k. seq (makeApply (depth k)
          [V (makeCons (V (makeNumber 1)) (V (makeNumber 2))), V (makeFunc2 MakeCons)] emptyState)
        (evaluate (depth k)) = Ok (ConsValue (V (NumberValue 1)) (V (NumberValue 2))) emptyState) \<and>
   (\<exists>k. seq (applyMethod (oo_depth k)
          (OOV (OOConsValue (OOV (OONumberValue 1)) (OOV (OONumberValue 2))))
          (OOV (OOFuncValue (OOFunc2 OOCons))) oo_emptyState)
        (forceValue (oo_depth k)) =
      Ok (OOConsValue (OOV (OONumberValue 1)) (OOV (OONumberValue 2))) oo_emptyState)"
proof -
  have "seq (seq (makeApply (depth (Suc (Suc (Suc 0)))) [V (makeFunc2 MakeCons), V (makeNumber 1)] emptyState)
            (\<lambda>fa s1. makeApply (depth (Suc (Suc (Suc 0)))) [fa, V (makeNumber 2)] s1))
          (evaluate (depth (Suc (Suc (Suc 0))))) =
        Ok (ConsValue (V (NumberValue 1)) (V (NumberValue 2))) emptyState"
    by (simp add: makeApply_body_def makeApplyStep_body_def makeFunc2_def callFunc_body_def
        call2_def makeCons_def makeNumber_def evaluate_body_def)
  then have 1: "\<exists>k. seq (seq (makeApply (depth k) [V (makeFunc2 MakeCons), V (makeNumber 1)] emptyState)
            (\<lambda>fa s1. makeApply (depth k) [fa, V (makeNumber 2)] s1))
          (evaluate (depth k)) =
        Ok (ConsValue (V (NumberValue 1)) (V (NumberValue 2))) emptyState"
    by (rule exI)
  have "seq (seq (applyMethod (oo_depth (Suc (Suc 0))) (OOV (OOFuncValue (OOFunc2 OOCons)))
               (OOV (OONumberValue 1)) oo_emptyState)
            (\<lambda>fa t1. applyMethod (oo_depth (Suc (Suc 0))) fa (OOV (OONumberValue 2)) t1))
          (forceValue (oo_depth (Suc (Suc 0)))) =
        Ok (OOConsValue (OOV (OONumberValue 1)) (OOV (OONumberValue 2))) oo_emptyState"
    by (simp add: applyMethod_body_def oo_callFunc_body_def oo_call2_def forceValue_body_def)
  then have 2: "\<exists>k. seq (seq (applyMethod (oo_depth k) (OOV (OOFuncValue (OOFunc2 OOCons)))
               (OOV (OONumberValue 1)) oo_emptyState)
            (\<lambda>fa t1. applyMethod (oo_depth k) fa (OOV (OONumberValue 2)) t1))
          (forceValue (oo_depth k)) =
        Ok (OOConsValue (OOV (OONumberValue 1)) (OOV (OONumberValue 2))) oo_emptyState"
    by (rule exI)
  show ?thesis
    using 1 2
      pair_destructuring [where n = 0 and a = "V (makeNumber 1)" and b = "V (makeNumber 2)"
        and f = "V (makeFunc2 MakeCons)" and s = emptyState
        and out = "Ok (ConsValue (V (NumberValue 1)) (V (NumberValue 2))) emptyState"
        and a' = "OOV (OONumberValue 1)" and b' = "OOV (OONumberValue 2)"
        and f' = "OOV (OOFuncValue (OOFunc2 OOCons))" and t = oo_emptyState
        and out' = "Ok (OOConsValue (OOV (OONumberValue 1)) (OOV (OONumberValue 2))) oo_emptyState"]
    by simp
qed

lemma seq_ErrE:
  assumes "seq m k = Err e"
  shows "m = Err e \<or> (\<exists>a s'. m = Ok a s' \<and> k a s' = Err e)"
  using assms by (cases m) simp_all

lemma reduceFrom_errors:
  assumes "\<And>a b s e. f a b s = Err e \<Longrightarrow> e = NotApplicable"
    and "reduceFrom f acc xs s = Err e"
  shows "e = NotApplicable"
  using assms(2)
proof (induction xs arbitrary: acc s)
  case Nil
  then show ?case by simp
next
  case (Cons x xs)
  from Cons.prems have "f acc x s = Err e \<or> (\<exists>a s'. f acc x s = Ok a s' \<and> reduceFrom f a xs s' = Err e)"
    by (auto dest: seq_ErrE)
  then show ?case using assms(1) Cons.IH by blast
qed

lemma reduce_errors:
  assumes "\<And>a b s e. f a b s = Err e \<Longrightarrow> e = NotApplicable"
    and "reduce f xs s = Err e" and "xs \<noteq> []"
  shows "e = NotApplicable"
  using assms reduceFrom_errors [of f] by (cases xs) auto

lemma makeThunk_Ok [simp]: "makeThunk f s \<noteq> Err e"
  by (simp add: makeThunk_def)

lemma application_errors:
  "(\<forall>args s e. makeApply (depth n) args s = Err e \<longrightarrow> args \<noteq> [] \<longrightarrow> e = NotApplicable) \<and>
   (\<forall>lhs rhs s e. makeApplyStep (depth n) lhs rhs s = Err e \<longrightarrow> e = NotApplicable) \<and>
   (\<forall>g x s e. callFunc (depth n) g x s = Err e \<longrightarrow> e = NotApplicable) \<and>
   (\<forall>x s e. makeCar (depth n) x s = Err e \<longrightarrow> e = NotApplicable) \<and>
   (\<forall>x s e. makeCdr (depth n) x s = Err e \<longrightarrow> e = NotApplicable)"
proof (induction n)
  case 0
  show ?case by simp
next
  case (Suc n)
  have step: "\<And>a b s e. makeApplyStep (depth n) a b s = Err e \<Longrightarrow> e = NotApplicable"
    using Suc by blast
  have app: "\<And>args s e. makeApply (depth n) args s = Err e \<Longrightarrow> args \<noteq> [] \<Longrightarrow> e = NotApplicable"
    using Suc by blast
  have car: "\<And>x s e. makeCar (depth n) x s = Err e \<Longrightarrow> e = NotApplicable"
    using Suc by blast
  have cdr: "\<And>x s e. makeCdr (depth n) x s = Err e \<Longrightarrow> e = NotApplicable"
    using Suc by blast
  have cf: "\<And>g x s e. callFunc (depth n) g x s = Err e \<Longrightarrow> e = NotApplicable"
    using Suc by blast
  have 1: "\<forall>args s e. makeApply (depth (Suc n)) args s = Err e \<longrightarrow> args \<noteq> [] \<longrightarrow> e = NotApplicable"
    using reduce_errors [of "makeApplyStep (depth n)"] step by (auto simp: makeApply_body_def)
  have 2: "\<forall>lhs rhs s e. makeApplyStep (depth (Suc n)) lhs rhs s = Err e \<longrightarrow> e = NotApplicable"
    by (auto simp: makeApplyStep_body_def split: expr.splits val.splits dest: app cf)
  have 3: "\<forall>g x s e. callFunc (depth (Suc n)) g x s = Err e \<longrightarrow> e = NotApplicable"
    by (auto simp: callFunc_body_def call1_def call2_def call3_def
        split: closure.splits fn1.splits fn2.splits fn3.splits dest!: seq_ErrE dest: app car cdr)
  have 4: "\<forall>x s e. makeCar (depth (Suc n)) x s = Err e \<longrightarrow> e = NotApplicable"
    by (auto simp: makeCar_body_def dest: app)
  have 5: "\<forall>x s e. makeCdr (depth (Suc n)) x s = Err e \<longrightarrow> e = NotApplicable"
    by (auto simp: makeCdr_body_def dest: app)
  show ?case using 1 2 3 4 5 by blast
qed

text \<open>
  C8. Numbers are not callable. Applying anything to a number throws
  \<open>Invalid function call: number\<close> (\<open>Not a func\<close> in the class-based variant), also when
  the number is what a thunk forces to. The other shapes of the left side do not throw
  by themselves: nil returns the true selector, an unforced thunk returns a fresh thunk,
  a pair hands over to the application of the argument to its two fields, a function to
  its closure, a forced thunk of the class-based variant to its cache. So whenever the
  functional \<open>makeApply\<close> throws, at whatever nesting, it is this error of a number in
  function position.
\<close>

theorem numbers_not_callable:
  "makeApplyStep (depth (Suc n)) (V (makeNumber i)) rhs s = Err NotApplicable \<and>
   makeApply (depth (Suc (Suc n))) [V (makeNumber i), rhs] s = Err NotApplicable \<and>
   (evaluate (depth n) lhs s = Ok (NumberValue i) s1 \<longrightarrow>
      apply' (depth (Suc n)) lhs rhs s = Err NotApplicable) \<and>
   makeApplyStep (depth (Suc n)) (V makeNil) rhs s = Ok (V (makeBoolean True)) s \<and>
   makeApplyStep (depth (Suc n)) (Thunk a) rhs s =
     Ok (Thunk (length (heap s)))
        (s\<lparr>heap := heap s @ [\<lparr>func = Some (ApplyRecipe (Thunk a) rhs), cache = None\<rparr>]\<rparr>) \<and>
   makeApplyStep (depth (Suc n)) (V (makeCons x y)) rhs s = makeApply (depth n) [rhs, x, y] s \<and>
   makeApplyStep (depth (Suc n)) (V (FuncValue g)) rhs s = callFunc (depth n) g rhs s \<and>
   (makeApplyStep (depth k) lhs rhs s = Err e \<longrightarrow> e = NotApplicable) \<and>
   (makeApply (depth k) args s = Err e \<longrightarrow> args \<noteq> [] \<longrightarrow> e = NotApplicable) \<and>
   applyMethod (oo_depth (Suc n)) (OOV (OONumberValue i)) rhs' t = Err NotApplicable \<and>
   applyMethod (oo_depth (Suc n)) (OOV OONilValue) rhs' t = Ok (OOV (oo_makeBoolean True)) t \<and>
   applyMethod (oo_depth (Suc n)) (OOV (OOConsValue x' y')) rhs' t =
     seq (applyMethod (oo_depth n) rhs' x' t) (\<lambda>fa t1. applyMethod (oo_depth n) fa y' t1) \<and>
   applyMethod (oo_depth (Suc n)) (OOV (OOFuncValue g')) rhs' t = oo_callFunc (oo_depth n) g' rhs' t \<and>
   (oo_cache (oo_thunkAt t a) = None \<longrightarrow>
      applyMethod (oo_depth (Suc n)) (OOThunk a) rhs' t =
        Ok (OOThunk (length (oo_heap t)))
           (t\<lparr>oo_heap := oo_heap t @
              [\<lparr>oo_func = Some (OOApplyRecipe (OOThunk a) rhs'), oo_cache = None\<rparr>]\<rparr>)) \<and>
   (\<forall>c. oo_cache (oo_thunkAt t a) = Some c \<longrightarrow>
      applyMethod (oo_depth (Suc n)) (OOThunk a) rhs' t = applyMethod (oo_depth n) (OOV c) rhs' t)"
  using application_errors [of k]
  by (simp add: makeApplyStep_body_def makeApply_body_def makeNumber_def makeNil_def makeCons_def
      makeThunk_def apply_body_def applyMethod_body_def newThunk_def)

theorem numbers_not_callable_witness:
  "apply' (depth (Suc (Suc 0))) (V (makeNumber 3)) (V makeNil) emptyState = Err NotApplicable \<and>
   makeApply (depth (Suc (Suc (Suc (Suc 0)))))
     [V (makeCons (V (makeNumber 1)) (V (makeNumber 2))), V (makeNumber 3)] emptyState =
   Err NotApplicable \<and>
   applyMethod (oo_depth (Suc (Suc 0))) (OOThunk 0) (OOV OONilValue) oo_oneThunk =
     Ok (OOThunk (Suc 0))
       (oo_oneThunk\<lparr>oo_heap := oo_heap oo_oneThunk @
          [\<lparr>oo_func = Some (OOApplyRecipe (OOThunk 0) (OOV OONilValue)), oo_cache = None\<rparr>]\<rparr>) \<and>
   applyMethod (oo_depth (Suc (Suc 0))) (OOThunk 0) (OOV OONilValue) oo_oneThunkForced =
     Err NotApplicable"
  using numbers_not_callable [where n = "Suc 0" and i = 3 and rhs = "V makeNil" and s = emptyState
      and lhs = "V (makeNumber 3)" and ?s1.0 = emptyState and k = "Suc (Suc (Suc (Suc 0)))"
      and e = NotApplicable
      and args = "[V (makeCons (V (makeNumber 1)) (V (makeNumber 2))), V (makeNumber 3)]"
      and t = oo_oneThunk and a = 0 and rhs' = "OOV OONilValue"]
    numbers_not_callable [where n = "Suc 0" and i = 7 and t = oo_oneThunkForced and a = 0
      and rhs' = "OOV OONilValue"]
  by (simp add: evaluate_body_def makeNumber_def makeApply_body_def makeApplyStep_body_def
      makeCons_def oo_oneThunk_def oo_oneThunkForced_def oo_thunkAt_def applyMethod_body_def)

text \<open>
  C5. Nil is the constant-true selector. Applying any \<open>f\<close> to nil returns
  \<open>makeBoolean True\<close>, which applied to \<open>x\<close> and \<open>y\<close> returns the expression \<open>x\<close>
  itself; so applying nil to \<open>f\<close>, \<open>x\<close> and \<open>y\<close> returns \<open>x\<close> and leaves the store as it
  was, and forcing the result is forcing \<open>x\<close>. The same holds of the method \<open>apply\<close> of
  the class-based variant.
\<close>

theorem nil_true_selector:
  "makeApply (depth (Suc (Suc n))) [V makeNil, f] s = Ok (V (makeBoolean True)) s \<and>
   makeApply (depth (Suc (Suc (Suc n)))) [V (makeBoolean True), x, y] s = Ok x s \<and>
   makeApply (depth (Suc (Suc (Suc n)))) [V makeNil, f, x, y] s = Ok x s \<and>
   seq (makeApply (depth (Suc (Suc (Suc n)))) [V makeNil, f, x, y] s) (evaluate (depth m))
     = evaluate (depth m) x s \<and>
   seq (seq (makeApply (depth (Suc (Suc (Suc n)))) [V makeNil, f] s)
          (\<lambda>r s1. makeApply (depth (Suc (Suc (Suc n)))) [r, x] s1))
       (\<lambda>rx s2. makeApply (depth (Suc (Suc (Suc n)))) [rx, y] s2) = Ok x s \<and>
   applyMethod (oo_depth (Suc n)) (OOV OONilValue) f' t = Ok (OOV (oo_makeBoolean True)) t \<and>
   seq (seq (applyMethod (oo_depth (Suc (Suc n))) (OOV OONilValue) f' t)
          (\<lambda>r t1. applyMethod (oo_depth (Suc (Suc n))) r x' t1))
       (\<lambda>rx t2. applyMethod (oo_depth (Suc (Suc n))) rx y' t2) = Ok x' t \<and>
   seq (seq (seq (applyMethod (oo_depth (Suc (Suc n))) (OOV OONilValue) f' t)
          (\<lambda>r t1. applyMethod (oo_depth (Suc (Suc n))) r x' t1))
       (\<lambda>rx t2. applyMethod (oo_depth (Suc (Suc n))) rx y' t2)) (forceValue (oo_depth m))
     = forceValue (oo_depth m) x' t"
  by (simp add: makeApply_body_def makeApplyStep_body_def makeNil_def makeBoolean_def theTrue_def
      makeFunc2_def callFunc_body_def call2_def applyMethod_body_def oo_makeBoolean_def
      oo_theTrue_def oo_callFunc_body_def oo_call2_def)

section \<open>Nil/pair discrimination\<close>

text \<open>
  The method \<open>isNil\<close> of the class-based variant has the tags only and no probe: nil is
  true, a pair is false, a number and a function throw \<open>Not a nil/cons\<close>.
\<close>

lemma value_isNil_rows:
  "value_isNil OONilValue t = Ok True t"
  "value_isNil (OOConsValue a b) t = Ok False t"
  "value_isNil (OONumberValue i) t = Err AmbiguousValue"
  "value_isNil (OOFuncValue g) t = Err AmbiguousValue"
  by (simp_all add: value_isNil_def)

text \<open>
  C6. The dispatch of \<open>isNil\<close> on the tag, in both variants. When the expression forces
  to the tagged nil, \<open>isNil\<close> returns true, and when it forces to a tagged pair, it
  returns false, in the functional and in the class-based variant; the store is the one
  forcing left. On a number the function \<open>isNil\<close> of the functional variant returns
  false, but the method \<open>isNil\<close> of the class-based variant throws
  \<open>Not a nil/cons\<close>. On a function the functional variant goes to the probe
  \<open>isNilSlow\<close>, and nowhere else; the class-based variant has no probe and throws
  \<open>Not a nil/cons\<close>. The built-in \<open>isnil\<close> of the class-based
  variant, which calls the method on the forced argument, returns and throws with it.
\<close>

theorem isNil_tag_fast_path:
  assumes "evaluate (depth n) e s = Ok v s1"
    and "forceValue (oo_depth n) e' t = Ok v' t1"
  shows "(v = NilValue \<longrightarrow> isNil (depth (Suc n)) e s = Ok True s1) \<and>
    ((\<exists>a b. v = ConsValue a b) \<longrightarrow> isNil (depth (Suc n)) e s = Ok False s1) \<and>
    ((\<exists>i. v = NumberValue i) \<longrightarrow> isNil (depth (Suc n)) e s = Ok False s1) \<and>
    (\<forall>g. v = FuncValue g \<longrightarrow> isNil (depth (Suc n)) e s = isNilSlow (depth n) g s1) \<and>
    (v' = OONilValue \<longrightarrow>
       seq (forceValue (oo_depth n) e' t) value_isNil = Ok True t1) \<and>
    ((\<exists>a b. v' = OOConsValue a b) \<longrightarrow>
       seq (forceValue (oo_depth n) e' t) value_isNil = Ok False t1) \<and>
    ((\<exists>i. v' = OONumberValue i) \<longrightarrow>
       seq (forceValue (oo_depth n) e' t) value_isNil = Err AmbiguousValue) \<and>
    ((\<exists>g. v' = OOFuncValue g) \<longrightarrow>
       seq (forceValue (oo_depth n) e' t) value_isNil = Err AmbiguousValue) \<and>
    oo_runThunk (oo_depth (Suc n)) (OOIsNilRecipe e') t =
      (case v' of
         OONilValue \<Rightarrow> Ok (oo_makeBoolean True) t1
       | OOConsValue a b \<Rightarrow> Ok (oo_makeBoolean False) t1
       | _ \<Rightarrow> Err AmbiguousValue)"
proof -
  have f: "(v = NilValue \<longrightarrow> isNil (depth (Suc n)) e s = Ok True s1) \<and>
    ((\<exists>a b. v = ConsValue a b) \<longrightarrow> isNil (depth (Suc n)) e s = Ok False s1) \<and>
    ((\<exists>i. v = NumberValue i) \<longrightarrow> isNil (depth (Suc n)) e s = Ok False s1) \<and>
    (\<forall>g. v = FuncValue g \<longrightarrow> isNil (depth (Suc n)) e s = isNilSlow (depth n) g s1)"
    using assms(1) by (auto simp: isNil_body_def)
  have m: "seq (forceValue (oo_depth n) e' t) value_isNil = value_isNil v' t1"
    using assms(2) by simp
  have b: "oo_runThunk (oo_depth (Suc n)) (OOIsNilRecipe e') t =
      (case v' of
         OONilValue \<Rightarrow> Ok (oo_makeBoolean True) t1
       | OOConsValue a b \<Rightarrow> Ok (oo_makeBoolean False) t1
       | _ \<Rightarrow> Err AmbiguousValue)"
    using assms(2) by (simp add: oo_runThunk_body_def value_isNil_def split: oo_value.split)
  show ?thesis
    unfolding m using f b by (auto simp: value_isNil_rows)
qed

theorem isNil_tag_fast_path_witness:
  "isNil (depth (Suc (Suc 0))) (V (makeCons (V makeNil) (V (makeNumber 5)))) emptyState =
     Ok False emptyState \<and>
   isNil (depth (Suc (Suc 0))) (V makeNil) emptyState = Ok True emptyState \<and>
   isNil (depth (Suc (Suc 0))) (V (makeNumber 7)) emptyState = Ok False emptyState \<and>
   isNil (depth (Suc (Suc 0))) (V (makeFunc BuiltinI)) emptyState =
     isNilSlow (depth (Suc 0)) (Func1 BuiltinI) emptyState \<and>
   seq (forceValue (oo_depth (Suc 0)) (OOV (OOConsValue (OOV OONilValue) (OOV (OONumberValue 5))))
          oo_emptyState) value_isNil = Ok False oo_emptyState \<and>
   seq (forceValue (oo_depth (Suc 0)) (OOV OONilValue) oo_emptyState) value_isNil =
     Ok True oo_emptyState \<and>
   seq (forceValue (oo_depth (Suc 0)) (OOV (OONumberValue 7)) oo_emptyState) value_isNil =
     Err AmbiguousValue \<and>
   seq (forceValue (oo_depth (Suc 0)) (OOV (OOFuncValue (OOFunc1 OOI))) oo_emptyState) value_isNil =
     Err AmbiguousValue \<and>
   oo_runThunk (oo_depth (Suc (Suc 0))) (OOIsNilRecipe (OOV OONilValue)) oo_emptyState =
     Ok (oo_makeBoolean True) oo_emptyState \<and>
   oo_runThunk (oo_depth (Suc (Suc 0))) (OOIsNilRecipe (OOV (OONumberValue 7))) oo_emptyState =
     Err AmbiguousValue"
proof -
  have e1: "evaluate (depth (Suc 0)) (V (makeCons (V makeNil) (V (makeNumber 5)))) emptyState =
      Ok (ConsValue (V NilValue) (V (NumberValue 5))) emptyState"
    and e2: "evaluate (depth (Suc 0)) (V makeNil) emptyState = Ok NilValue emptyState"
    and e3: "evaluate (depth (Suc 0)) (V (makeNumber 7)) emptyState = Ok (NumberValue 7) emptyState"
    and e4: "evaluate (depth (Suc 0)) (V (makeFunc BuiltinI)) emptyState =
      Ok (FuncValue (Func1 BuiltinI)) emptyState"
    by (simp_all add: evaluate_body_def makeCons_def makeNil_def makeNumber_def makeFunc_def)
  have f1: "forceValue (oo_depth (Suc 0)) (OOV (OOConsValue (OOV OONilValue) (OOV (OONumberValue 5))))
      oo_emptyState = Ok (OOConsValue (OOV OONilValue) (OOV (OONumberValue 5))) oo_emptyState"
    and f2: "forceValue (oo_depth (Suc 0)) (OOV OONilValue) oo_emptyState =
      Ok OONilValue oo_emptyState"
    and f3: "forceValue (oo_depth (Suc 0)) (OOV (OONumberValue 7)) oo_emptyState =
      Ok (OONumberValue 7) oo_emptyState"
    and f4: "forceValue (oo_depth (Suc 0)) (OOV (OOFuncValue (OOFunc1 OOI))) oo_emptyState =
      Ok (OOFuncValue (OOFunc1 OOI)) oo_emptyState"
    by (simp_all add: forceValue_body_def)
  show ?thesis
    using isNil_tag_fast_path [OF e1 f1] isNil_tag_fast_path [OF e2 f2]
      isNil_tag_fast_path [OF e3 f3] isNil_tag_fast_path [OF e4 f4]
    by simp
qed

text \<open>
  The number \<open>7\<close> in the class-based variant: forcing returns the number, the method
  \<open>isNil\<close> called on it throws and does not return false, and so does the built-in
  \<open>isnil\<close>; the function \<open>isNil\<close> of the functional variant returns false on the
  same number.
\<close>

theorem isNil_number_throws:
  "forceValue (oo_depth (Suc 0)) (OOV (OONumberValue 7)) oo_emptyState =
     Ok (OONumberValue 7) oo_emptyState \<and>
   seq (forceValue (oo_depth (Suc 0)) (OOV (OONumberValue 7)) oo_emptyState) value_isNil =
     Err AmbiguousValue \<and>
   seq (forceValue (oo_depth (Suc 0)) (OOV (OONumberValue 7)) oo_emptyState) value_isNil \<noteq>
     Ok False oo_emptyState \<and>
   oo_runThunk (oo_depth (Suc (Suc 0))) (OOIsNilRecipe (OOV (OONumberValue 7))) oo_emptyState =
     Err AmbiguousValue \<and>
   isNil (depth (Suc (Suc 0))) (V (makeNumber 7)) emptyState = Ok False emptyState"
  by (simp add: forceValue_body_def value_isNil_def oo_runThunk_body_def isNil_body_def
      evaluate_body_def makeNumber_def)

text \<open>
  C3. The behavioural probe. When the expression forces to a function \<open>g\<close>, \<open>isNil\<close>
  applies \<open>g\<close> to the two-argument function that returns false and to the two sentinels
  \<open>trueValue\<close> and \<open>falseValue\<close>, and forces the result: the number \<open>trueValue\<close> gives
  true, the number \<open>falseValue\<close> gives false, every other number and every value that
  is not a number throws \<open>Not nil/cons\<close>.
\<close>

theorem isNil_probe:
  assumes "evaluate (depth n) e s = Ok (FuncValue g) s1"
    and "makeApply (depth n) [V (FuncValue g), V (makeFunc2 ConstFalse), V (makeNumber trueValue),
           V (makeNumber falseValue)] s1 = Ok p s2"
    and "evaluate (depth n) p s2 = Ok r s3"
  shows "isNil (depth (Suc (Suc n))) e s =
     (if r = NumberValue trueValue then Ok True s3
      else if r = NumberValue falseValue then Ok False s3
      else Err AmbiguousValue)"
proof -
  obtain k where n: "n = Suc k" using assms(1) by (cases n) auto
  have 1: "evaluate (depth (Suc n)) e s = Ok (FuncValue g) s1"
    using evaluate_mono [of n "Suc n" e s] assms(1) by simp
  have 2: "evaluate (depth n) (V (makeFunc2 ConstFalse)) s1 = Ok (makeFunc2 ConstFalse) s1"
    by (simp add: n evaluate_body_def)
  show ?thesis
    using 1 2 assms(2,3)
    by (simp add: isNil_body_def isNilSlow_body_def split: val.split)
qed

lemma probe_nil_like:
  "makeApply (depth (Suc (Suc (Suc 0))))
     [V (FuncValue (Func2_1 SelectFirst (V theTrue))), V (makeFunc2 ConstFalse),
      V (makeNumber trueValue), V (makeNumber falseValue)] emptyState =
   Ok (V (makeNumber trueValue)) emptyState"
  by (simp add: makeApply_body_def makeApplyStep_body_def makeBoolean_def theTrue_def
      makeFunc2_def callFunc_body_def call2_def)

lemma probe_pair_like:
  "makeApply (depth (Suc (Suc (Suc (Suc (Suc (Suc (Suc (Suc (Suc (Suc 0)))))))))))
     [V (FuncValue pairLike), V (makeFunc2 ConstFalse),
      V (makeNumber trueValue), V (makeNumber falseValue)] emptyState =
   Ok (V (makeNumber falseValue)) emptyState"
  by (simp add: pairLike_def makeApply_body_def makeApplyStep_body_def makeBoolean_def theFalse_def
      makeFunc2_def makeFunc_def callFunc_body_def call1_def call2_def call3_def reduceFrom_two)

lemma probe_identity:
  "makeApply (depth (Suc (Suc (Suc 0))))
     [V (makeFunc BuiltinI), V (makeFunc2 ConstFalse),
      V (makeNumber trueValue), V (makeNumber falseValue)] emptyState =
   Ok (V (makeBoolean False)) emptyState"
  by (simp add: makeApply_body_def makeApplyStep_body_def makeBoolean_def theFalse_def
      makeFunc2_def makeFunc_def callFunc_body_def call1_def call2_def call3_def)

theorem isNil_probe_witness:
  "isNil (depth (Suc (Suc (Suc (Suc (Suc 0))))))
     (V (FuncValue (Func2_1 SelectFirst (V theTrue)))) emptyState = Ok True emptyState \<and>
   isNil (depth (Suc (Suc (Suc (Suc (Suc (Suc (Suc (Suc (Suc (Suc (Suc (Suc 0)))))))))))))
     (V (FuncValue pairLike)) emptyState = Ok False emptyState \<and>
   isNil (depth (Suc (Suc (Suc (Suc (Suc 0))))))
     (V (makeFunc BuiltinI)) emptyState = Err AmbiguousValue"
  using isNil_probe [of "Suc (Suc (Suc 0))" "V (FuncValue (Func2_1 SelectFirst (V theTrue)))"
      emptyState "Func2_1 SelectFirst (V theTrue)" emptyState "V (makeNumber trueValue)"
      emptyState "makeNumber trueValue" emptyState]
    probe_nil_like
    isNil_probe [of "Suc (Suc (Suc (Suc (Suc (Suc (Suc (Suc (Suc (Suc 0)))))))))" "V (FuncValue pairLike)"
      emptyState pairLike emptyState "V (makeNumber falseValue)"
      emptyState "makeNumber falseValue" emptyState]
    probe_pair_like
    isNil_probe [of "Suc (Suc (Suc 0))" "V (makeFunc BuiltinI)"
      emptyState "Func1 BuiltinI" emptyState "V (makeBoolean False)"
      emptyState "makeBoolean False" emptyState]
    probe_identity
  by (simp add: evaluate_body_def makeNumber_def makeFunc_def makeBoolean_def theFalse_def
      makeFunc2_def trueValue_def falseValue_def)

section \<open>Arithmetic built-ins\<close>

lemma thunkAt_new [simp]:
  "thunkAt (s\<lparr>heap := heap s @ [c]\<rparr>) (length (heap s)) = c"
  by (simp add: thunkAt_def)

lemma thunkAt_counter [simp]:
  "thunkAt (s\<lparr>evalCounter := k\<rparr>) a = thunkAt s a"
  by (simp add: thunkAt_def)








section \<open>Forcing\<close>

lemma later_refl [simp]: "later s s"
  by (simp add: later_def)

lemma later_trans: "later s s1 \<Longrightarrow> later s1 s2 \<Longrightarrow> later s s2"
  by (auto simp: later_def)

lemma seq_later:
  assumes "seq m k = Ok v s'"
    and "\<And>a s1. m = Ok a s1 \<Longrightarrow> later s s1"
    and "\<And>a s1. k a s1 = Ok v s' \<Longrightarrow> later s1 s'"
  shows "later s s'"
  using assms by (cases m) (auto intro: later_trans)

lemma makeThunk_later: "makeThunk f s = Ok e s' \<Longrightarrow> later s s'"
  by (auto simp: makeThunk_def later_def thunkAt_def nth_append)

lemma unaryOp_same: "unaryOp name f x s = Ok v s' \<Longrightarrow> s' = s"
  by (auto simp: unaryOp_def split: val.splits)

lemma binaryOp_same:
  assumes "binaryOp name f x y s = Ok v s'" and "\<And>i j. f i j s = Ok v s' \<Longrightarrow> s' = s"
  shows "s' = s"
  using assms by (auto simp: binaryOp_def split: val.splits)

lemma binaryOp_later:
  assumes "binaryOp name f x y s = Ok v s'" and "\<And>i j. f i j s = Ok v s' \<Longrightarrow> s' = s"
  shows "later s s'"
proof -
  have "s' = s" using assms by (rule binaryOp_same)
  then show ?thesis by simp
qed

lemma bigintDiv_same: "bigintDiv i j s = Ok v s' \<Longrightarrow> s' = s"
  by (auto simp: bigintDiv_def split: if_splits)

lemma reduceFrom_later:
  assumes "\<And>a b s v s'. f a b s = Ok v s' \<Longrightarrow> later s s'"
    and "reduceFrom f acc xs s = Ok v s'"
  shows "later s s'"
  using assms(2)
proof (induction xs arbitrary: acc s)
  case Nil
  then show ?case by simp
next
  case (Cons x xs)
  from Cons.prems have "seq (f acc x s) (\<lambda>acc' s'. reduceFrom f acc' xs s') = Ok v s'" by simp
  then show ?case
    by (rule seq_later) (auto intro: assms(1) Cons.IH)
qed

lemma reduce_later:
  assumes "\<And>a b s v s'. f a b s = Ok v s' \<Longrightarrow> later s s'"
    and "reduce f xs s = Ok v s'"
  shows "later s s'"
  using assms reduceFrom_later [of f] by (cases xs) auto

lemma thunkAt_update:
  "thunkAt (s\<lparr>heap := (heap s)[a := c]\<rparr>) b =
     (if b = a \<and> a < length (heap s) then c else thunkAt s b)"
  by (simp add: thunkAt_def)

lemma evaluate_body_later:
  assumes "keeps r" and "evaluate_body r e s = Ok v s'"
  shows "later s s'"
proof (cases e)
  case (V x)
  then show ?thesis using assms(2) by (simp add: evaluate_body_def)
next
  case (Thunk a)
  show ?thesis
  proof (cases "cache (thunkAt s a)")
    case (Some c)
    then show ?thesis using assms(2) Thunk by (simp add: evaluate_body_def)
  next
    case None
    then obtain f where f: "func (thunkAt s a) = Some f"
      using assms(2) Thunk by (cases "func (thunkAt s a)") (auto simp: evaluate_body_def)
    from assms(2) Thunk None f obtain s1 where
      run: "runThunk r f (s\<lparr>evalCounter := evalCounter s + 1\<rparr>) = Ok v s1"
      and s': "s' = s1\<lparr>heap := (heap s1)[a := \<lparr>func = None, cache = Some v\<rparr>]\<rparr>"
      by (cases "runThunk r f (s\<lparr>evalCounter := evalCounter s + 1\<rparr>)")
        (auto simp: evaluate_body_def)
    have l: "later (s\<lparr>evalCounter := evalCounter s + 1\<rparr>) s1"
      using assms(1) run by (auto simp: keeps_def)
    have "thunkAt s' b = thunkAt s b" if b: "cache (thunkAt s b) \<noteq> None" for b
    proof -
      have "b \<noteq> a" using b None by auto
      moreover have "thunkAt s1 b = thunkAt s b" using l b by (simp add: later_def)
      ultimately show ?thesis by (simp add: s' thunkAt_update)
    qed
    then show ?thesis
      using l by (simp add: later_def s')
  qed
qed

lemma runThunk_body_later:
  assumes "keeps r" and "runThunk_body r f s = Ok v s'"
  shows "later s s'"
proof -
  have ev: "\<And>e s v s'. evaluate r e s = Ok v s' \<Longrightarrow> later s s'"
    and ap: "\<And>a b s v s'. apply' r a b s = Ok v s' \<Longrightarrow> later s s'"
    and ma: "\<And>xs s v s'. makeApply r xs s = Ok v s' \<Longrightarrow> later s s'"
    and isn: "\<And>e s v s'. isNil r e s = Ok v s' \<Longrightarrow> later s s'"
    using assms(1) by (auto simp: keeps_def)
  show ?thesis
    using assms(2) unfolding runThunk_body_def
    by (cases f)
      (auto split: option.splits elim!: seq_later
        intro: ev ap ma isn binaryOp_later dest: unaryOp_same bigintDiv_same)
qed


lemma apply_body_later:
  assumes "keeps r" and "apply_body r a b s = Ok v s'"
  shows "later s s'"
proof -
  have ev: "\<And>e s v s'. evaluate r e s = Ok v s' \<Longrightarrow> later s s'"
    and ma: "\<And>xs s v s'. makeApply r xs s = Ok v s' \<Longrightarrow> later s s'"
    and cf: "\<And>g x s v s'. callFunc r g x s = Ok v s' \<Longrightarrow> later s s'"
    using assms(1) by (auto simp: keeps_def)
  show ?thesis
    using assms(2) unfolding apply_body_def
    by (auto split: val.splits elim!: seq_later intro: ev ma cf)
qed

lemma makeApply_body_later:
  assumes "keeps r" and "makeApply_body r xs s = Ok v s'"
  shows "later s s'"
proof -
  have st: "\<And>a b s v s'. makeApplyStep r a b s = Ok v s' \<Longrightarrow> later s s'"
    using assms(1) by (auto simp: keeps_def)
  show ?thesis
  proof (rule reduce_later)
    show "\<And>a b s v s'. makeApplyStep r a b s = Ok v s' \<Longrightarrow> later s s'" by (rule st)
    show "reduce (makeApplyStep r) xs s = Ok v s'" using assms(2) by (simp add: makeApply_body_def)
  qed
qed

lemma makeApplyStep_body_later:
  assumes "keeps r" and "makeApplyStep_body r a b s = Ok v s'"
  shows "later s s'"
proof -
  have ma: "\<And>xs s v s'. makeApply r xs s = Ok v s' \<Longrightarrow> later s s'"
    and cf: "\<And>g x s v s'. callFunc r g x s = Ok v s' \<Longrightarrow> later s s'"
    using assms(1) by (auto simp: keeps_def)
  show ?thesis
    using assms(2) unfolding makeApplyStep_body_def
    by (auto split: expr.splits val.splits intro: ma cf makeThunk_later)
qed

lemma callFunc_body_later:
  assumes "keeps r" and "callFunc_body r g x s = Ok v s'"
  shows "later s s'"
proof -
  have ma: "\<And>xs s v s'. makeApply r xs s = Ok v s' \<Longrightarrow> later s s'"
    and car: "\<And>e s v s'. makeCar r e s = Ok v s' \<Longrightarrow> later s s'"
    and cdr: "\<And>e s v s'. makeCdr r e s = Ok v s' \<Longrightarrow> later s s'"
    using assms(1) by (auto simp: keeps_def)
  show ?thesis
    using assms(2) unfolding callFunc_body_def call1_def call2_def call3_def
    by (auto split: closure.splits fn1.splits fn2.splits fn3.splits elim!: seq_later
        intro: ma car cdr makeThunk_later)
qed

lemma makeCar_body_later:
  assumes "keeps r" and "makeCar_body r e s = Ok v s'"
  shows "later s s'"
  using assms by (auto simp: keeps_def makeCar_body_def)

lemma makeCdr_body_later:
  assumes "keeps r" and "makeCdr_body r e s = Ok v s'"
  shows "later s s'"
  using assms by (auto simp: keeps_def makeCdr_body_def)

lemma isNil_body_later:
  assumes "keeps r" and "isNil_body r e s = Ok v s'"
  shows "later s s'"
proof -
  have ev: "\<And>e s v s'. evaluate r e s = Ok v s' \<Longrightarrow> later s s'"
    and sl: "\<And>g s v s'. isNilSlow r g s = Ok v s' \<Longrightarrow> later s s'"
    using assms(1) by (auto simp: keeps_def)
  show ?thesis
    using assms(2) unfolding isNil_body_def
    by (auto split: val.splits elim!: seq_later intro: ev sl)
qed

lemma isNilSlow_body_later:
  assumes "keeps r" and "isNilSlow_body r g s = Ok v s'"
  shows "later s s'"
proof -
  have ev: "\<And>e s v s'. evaluate r e s = Ok v s' \<Longrightarrow> later s s'"
    and ma: "\<And>xs s v s'. makeApply r xs s = Ok v s' \<Longrightarrow> later s s'"
    using assms(1) by (auto simp: keeps_def)
  show ?thesis
    using assms(2) unfolding isNilSlow_body_def
    by (auto split: val.splits if_splits elim!: seq_later intro: ev ma)
qed

lemma keeps_depth: "keeps (depth n)"
proof (induction n)
  case 0
  show ?case by (simp add: keeps_def)
next
  case (Suc n)
  show ?case
    unfolding keeps_def
    using evaluate_body_later [OF Suc] runThunk_body_later [OF Suc] apply_body_later [OF Suc]
      makeApply_body_later [OF Suc] makeApplyStep_body_later [OF Suc]
      callFunc_body_later [OF Suc] makeCar_body_later [OF Suc] makeCdr_body_later [OF Suc]
      isNil_body_later [OF Suc] isNilSlow_body_later [OF Suc]
    by simp
qed

lemma evaluate_later: "evaluate (depth n) e s = Ok v s' \<Longrightarrow> later s s'"
  using keeps_depth [of n] by (auto simp: keeps_def)

lemma makeApply_later: "makeApply (depth n) xs s = Ok v s' \<Longrightarrow> later s s'"
  using keeps_depth [of n] by (auto simp: keeps_def)

lemma runThunk_later: "runThunk (depth n) f s = Ok v s' \<Longrightarrow> later s s'"
  using keeps_depth [of n] by (auto simp: keeps_def)

lemma evaluate_cached:
  "cache (thunkAt s a) = Some v \<Longrightarrow> evaluate (depth (Suc m)) (Thunk a) s = Ok v s"
  by (simp add: evaluate_body_def)

lemma evaluate_memoized:
  assumes "evaluate (depth n) (Thunk a) s = Ok v s1" and "cache (thunkAt s a) = None"
  shows "thunkAt s1 a = \<lparr>func = None, cache = Some v\<rparr> \<and>
    (\<exists>f k s0. func (thunkAt s a) = Some f \<and>
       runThunk (depth k) f (s\<lparr>evalCounter := evalCounter s + 1\<rparr>) = Ok v s0 \<and>
       s1 = s0\<lparr>heap := (heap s0)[a := \<lparr>func = None, cache = Some v\<rparr>]\<rparr>) \<and>
    evalCounter s < evalCounter s1 \<and>
    evaluate (depth (Suc m)) (Thunk a) s1 = Ok v s1 \<and>
    (\<forall>k e w s2. evaluate (depth k) e s1 = Ok w s2 \<longrightarrow>
       thunkAt s2 a = \<lparr>func = None, cache = Some v\<rparr> \<and>
       evaluate (depth (Suc m)) (Thunk a) s2 = Ok v s2) \<and>
    (\<forall>k args e s2. makeApply (depth k) args s1 = Ok e s2 \<longrightarrow>
       thunkAt s2 a = \<lparr>func = None, cache = Some v\<rparr> \<and>
       evaluate (depth (Suc m)) (Thunk a) s2 = Ok v s2)"
proof -
  obtain k where n: "n = Suc k" using assms(1) by (cases n) auto
  obtain f where f: "func (thunkAt s a) = Some f"
    using assms by (cases "func (thunkAt s a)") (auto simp: n evaluate_body_def)
  then have a: "a < length (heap s)" by (auto simp: thunkAt_def split: if_splits)
  from assms f obtain s0 where
    run: "runThunk (depth k) f (s\<lparr>evalCounter := evalCounter s + 1\<rparr>) = Ok v s0"
    and s1: "s1 = s0\<lparr>heap := (heap s0)[a := \<lparr>func = None, cache = Some v\<rparr>]\<rparr>"
    by (cases "runThunk (depth k) f (s\<lparr>evalCounter := evalCounter s + 1\<rparr>)")
      (auto simp: n evaluate_body_def)
  have l: "later (s\<lparr>evalCounter := evalCounter s + 1\<rparr>) s0" using run by (rule runThunk_later)
  then have a0: "a < length (heap s0)" using a by (simp add: later_def)
  have 1: "thunkAt s1 a = \<lparr>func = None, cache = Some v\<rparr>"
    using a0 by (simp add: s1 thunkAt_update)
  have 2: "evalCounter s < evalCounter s1" using l by (simp add: later_def s1)
  have c1: "cache (thunkAt s1 a) = Some v" using 1 by simp
  have 3: "evaluate (depth (Suc m)) (Thunk a) s1 = Ok v s1"
    using c1 by (rule evaluate_cached)
  have 4: "thunkAt s2 a = \<lparr>func = None, cache = Some v\<rparr> \<and>
       evaluate (depth (Suc m)) (Thunk a) s2 = Ok v s2" if "later s1 s2" for s2
  proof -
    have e: "thunkAt s2 a = thunkAt s1 a" using that c1 by (simp add: later_def)
    then have "cache (thunkAt s2 a) = Some v" using c1 by simp
    then have "evaluate (depth (Suc m)) (Thunk a) s2 = Ok v s2" by (rule evaluate_cached)
    then show ?thesis using e 1 by simp
  qed
  have 5: "\<exists>f k s0. func (thunkAt s a) = Some f \<and>
       runThunk (depth k) f (s\<lparr>evalCounter := evalCounter s + 1\<rparr>) = Ok v s0 \<and>
       s1 = s0\<lparr>heap := (heap s0)[a := \<lparr>func = None, cache = Some v\<rparr>]\<rparr>"
    using f run s1 by blast
  show ?thesis
    using 1 2 3 4 5 evaluate_later makeApply_later by blast
qed


subsection \<open>The class-based variant\<close>

lemma oo_later_refl [simp]: "oo_later s s"
  by (simp add: oo_later_def)

lemma oo_later_trans: "oo_later s s1 \<Longrightarrow> oo_later s1 s2 \<Longrightarrow> oo_later s s2"
  by (auto simp: oo_later_def)

lemma seq_oo_later:
  assumes "seq m k = Ok v s'"
    and "\<And>a s1. m = Ok a s1 \<Longrightarrow> oo_later s s1"
    and "\<And>a s1. k a s1 = Ok v s' \<Longrightarrow> oo_later s1 s'"
  shows "oo_later s s'"
  using assms by (cases m) (auto intro: oo_later_trans)

lemma newThunk_later: "newThunk f s = Ok e s' \<Longrightarrow> oo_later s s'"
  by (auto simp: newThunk_def oo_later_def oo_thunkAt_def nth_append)

lemma value_uncons_same: "value_uncons v s = Ok p s' \<Longrightarrow> s' = s"
  by (auto simp: value_uncons_def split: oo_value.splits)

lemma value_isNil_same: "value_isNil v s = Ok b s' \<Longrightarrow> s' = s"
  by (auto simp: value_isNil_def split: oo_value.splits)

lemma uncons_later: "uncons e s = Ok p s' \<Longrightarrow> oo_later s s'"
  unfolding uncons_def
  by (auto split: oo_expr.splits option.splits elim!: seq_oo_later
      dest: value_uncons_same intro: newThunk_later)

lemma oo_unaryOp_same: "oo_unaryOp name f x s = Ok v s' \<Longrightarrow> s' = s"
  by (auto simp: oo_unaryOp_def split: oo_value.splits)

lemma oo_binaryOp_later:
  assumes "oo_binaryOp name f x y s = Ok v s'" and "\<And>i j. f i j s = Ok v s' \<Longrightarrow> s' = s"
  shows "oo_later s s'"
proof -
  have "s' = s" using assms by (auto simp: oo_binaryOp_def split: oo_value.splits)
  then show ?thesis by simp
qed

lemma oo_bigintDiv_same: "oo_bigintDiv i j s = Ok v s' \<Longrightarrow> s' = s"
  by (auto simp: oo_bigintDiv_def split: if_splits)

lemma oo_thunkAt_update:
  "oo_thunkAt (s\<lparr>oo_heap := (oo_heap s)[a := c]\<rparr>) b =
     (if b = a \<and> a < length (oo_heap s) then c else oo_thunkAt s b)"
  by (simp add: oo_thunkAt_def)

lemma forceValue_body_later:
  assumes "oo_keeps r" and "forceValue_body r e s = Ok v s'"
  shows "oo_later s s'"
proof (cases e)
  case (OOV x)
  then show ?thesis using assms(2) by (simp add: forceValue_body_def)
next
  case (OOThunk a)
  show ?thesis
  proof (cases "oo_cache (oo_thunkAt s a)")
    case (Some c)
    then show ?thesis using assms(2) OOThunk by (simp add: forceValue_body_def)
  next
    case None
    then obtain f where f: "oo_func (oo_thunkAt s a) = Some f"
      using assms(2) OOThunk by (cases "oo_func (oo_thunkAt s a)") (auto simp: forceValue_body_def)
    from assms(2) OOThunk None f obtain s1 where
      run: "oo_runThunk r f (s\<lparr>counter := counter s + 1\<rparr>) = Ok v s1"
      and s': "s' = s1\<lparr>oo_heap := (oo_heap s1)[a := \<lparr>oo_func = None, oo_cache = Some v\<rparr>]\<rparr>"
      by (cases "oo_runThunk r f (s\<lparr>counter := counter s + 1\<rparr>)")
        (auto simp: forceValue_body_def)
    have l: "oo_later (s\<lparr>counter := counter s + 1\<rparr>) s1"
      using assms(1) run by (auto simp: oo_keeps_def)
    have "oo_thunkAt s' b = oo_thunkAt s b" if b: "oo_cache (oo_thunkAt s b) \<noteq> None" for b
    proof -
      have "b \<noteq> a" using b None by auto
      moreover have "oo_thunkAt s1 b = oo_thunkAt s b" using l b by (simp add: oo_later_def)
      ultimately show ?thesis by (simp add: s' oo_thunkAt_update)
    qed
    then show ?thesis
      using l by (simp add: oo_later_def s')
  qed
qed

lemma oo_runThunk_body_later:
  assumes "oo_keeps r" and "oo_runThunk_body r f s = Ok v s'"
  shows "oo_later s s'"
proof -
  have fv: "\<And>e s v s'. forceValue r e s = Ok v s' \<Longrightarrow> oo_later s s'"
    and am: "\<And>a b s v s'. applyMethod r a b s = Ok v s' \<Longrightarrow> oo_later s s'"
    using assms(1) by (auto simp: oo_keeps_def)
  show ?thesis
    using assms(2) unfolding oo_runThunk_body_def
    by (cases f)
      (auto split: option.splits elim!: seq_oo_later
        intro: fv am oo_binaryOp_later uncons_later
        dest: oo_unaryOp_same oo_bigintDiv_same value_isNil_same)
qed

lemma applyMethod_body_later:
  assumes "oo_keeps r" and "applyMethod_body r a b s = Ok v s'"
  shows "oo_later s s'"
proof -
  have am: "\<And>a b s v s'. applyMethod r a b s = Ok v s' \<Longrightarrow> oo_later s s'"
    and cf: "\<And>g x s v s'. oo_callFunc r g x s = Ok v s' \<Longrightarrow> oo_later s s'"
    using assms(1) by (auto simp: oo_keeps_def)
  show ?thesis
    using assms(2) unfolding applyMethod_body_def
    by (auto split: oo_expr.splits oo_value.splits option.splits elim!: seq_oo_later
        intro: am cf newThunk_later)
qed

lemma oo_callFunc_body_later:
  assumes "oo_keeps r" and "oo_callFunc_body r g x s = Ok v s'"
  shows "oo_later s s'"
proof -
  have am: "\<And>a b s v s'. applyMethod r a b s = Ok v s' \<Longrightarrow> oo_later s s'"
    using assms(1) by (auto simp: oo_keeps_def)
  show ?thesis
    using assms(2) unfolding oo_callFunc_body_def oo_call1_def oo_call2_def oo_call3_def
    by (auto split: oo_closure.splits oo_fn1.splits oo_fn2.splits oo_fn3.splits
        elim!: seq_oo_later intro: am newThunk_later uncons_later)
qed

lemma oo_keeps_depth: "oo_keeps (oo_depth n)"
proof (induction n)
  case 0
  show ?case by (simp add: oo_keeps_def)
next
  case (Suc n)
  show ?case
    unfolding oo_keeps_def
    using forceValue_body_later [OF Suc] oo_runThunk_body_later [OF Suc]
      applyMethod_body_later [OF Suc] oo_callFunc_body_later [OF Suc]
    by simp
qed

lemma forceValue_later: "forceValue (oo_depth n) e s = Ok v s' \<Longrightarrow> oo_later s s'"
  using oo_keeps_depth [of n] by (auto simp: oo_keeps_def)

lemma applyMethod_later: "applyMethod (oo_depth n) a b s = Ok v s' \<Longrightarrow> oo_later s s'"
  using oo_keeps_depth [of n] by (auto simp: oo_keeps_def)

lemma oo_runThunk_later: "oo_runThunk (oo_depth n) f s = Ok v s' \<Longrightarrow> oo_later s s'"
  using oo_keeps_depth [of n] by (auto simp: oo_keeps_def)

lemma forceValue_cached:
  "oo_cache (oo_thunkAt s a) = Some v \<Longrightarrow> forceValue (oo_depth (Suc m)) (OOThunk a) s = Ok v s"
  by (simp add: forceValue_body_def)

lemma forceValue_memoized:
  assumes "forceValue (oo_depth n) (OOThunk a) s = Ok v s1" and "oo_cache (oo_thunkAt s a) = None"
  shows "oo_thunkAt s1 a = \<lparr>oo_func = None, oo_cache = Some v\<rparr> \<and>
    (\<exists>f k s0. oo_func (oo_thunkAt s a) = Some f \<and>
       oo_runThunk (oo_depth k) f (s\<lparr>counter := counter s + 1\<rparr>) = Ok v s0 \<and>
       s1 = s0\<lparr>oo_heap := (oo_heap s0)[a := \<lparr>oo_func = None, oo_cache = Some v\<rparr>]\<rparr>) \<and>
    counter s < counter s1 \<and>
    forceValue (oo_depth (Suc m)) (OOThunk a) s1 = Ok v s1 \<and>
    (\<forall>k e w s2. forceValue (oo_depth k) e s1 = Ok w s2 \<longrightarrow>
       oo_thunkAt s2 a = \<lparr>oo_func = None, oo_cache = Some v\<rparr> \<and>
       forceValue (oo_depth (Suc m)) (OOThunk a) s2 = Ok v s2) \<and>
    (\<forall>k e arg w s2. applyMethod (oo_depth k) e arg s1 = Ok w s2 \<longrightarrow>
       oo_thunkAt s2 a = \<lparr>oo_func = None, oo_cache = Some v\<rparr> \<and>
       forceValue (oo_depth (Suc m)) (OOThunk a) s2 = Ok v s2)"
proof -
  obtain k where n: "n = Suc k" using assms(1) by (cases n) auto
  obtain f where f: "oo_func (oo_thunkAt s a) = Some f"
    using assms by (cases "oo_func (oo_thunkAt s a)") (auto simp: n forceValue_body_def)
  then have a: "a < length (oo_heap s)" by (auto simp: oo_thunkAt_def split: if_splits)
  from assms f obtain s0 where
    run: "oo_runThunk (oo_depth k) f (s\<lparr>counter := counter s + 1\<rparr>) = Ok v s0"
    and s1: "s1 = s0\<lparr>oo_heap := (oo_heap s0)[a := \<lparr>oo_func = None, oo_cache = Some v\<rparr>]\<rparr>"
    by (cases "oo_runThunk (oo_depth k) f (s\<lparr>counter := counter s + 1\<rparr>)")
      (auto simp: n forceValue_body_def)
  have l: "oo_later (s\<lparr>counter := counter s + 1\<rparr>) s0" using run by (rule oo_runThunk_later)
  then have a0: "a < length (oo_heap s0)" using a by (simp add: oo_later_def)
  have 1: "oo_thunkAt s1 a = \<lparr>oo_func = None, oo_cache = Some v\<rparr>"
    using a0 by (simp add: s1 oo_thunkAt_update)
  have 2: "counter s < counter s1" using l by (simp add: oo_later_def s1)
  have c1: "oo_cache (oo_thunkAt s1 a) = Some v" using 1 by simp
  have 3: "forceValue (oo_depth (Suc m)) (OOThunk a) s1 = Ok v s1"
    using c1 by (rule forceValue_cached)
  have 4: "oo_thunkAt s2 a = \<lparr>oo_func = None, oo_cache = Some v\<rparr> \<and>
       forceValue (oo_depth (Suc m)) (OOThunk a) s2 = Ok v s2" if "oo_later s1 s2" for s2
  proof -
    have e: "oo_thunkAt s2 a = oo_thunkAt s1 a" using that c1 by (simp add: oo_later_def)
    then have "oo_cache (oo_thunkAt s2 a) = Some v" using c1 by simp
    then have "forceValue (oo_depth (Suc m)) (OOThunk a) s2 = Ok v s2" by (rule forceValue_cached)
    then show ?thesis using e 1 by simp
  qed
  have 5: "\<exists>f k s0. oo_func (oo_thunkAt s a) = Some f \<and>
       oo_runThunk (oo_depth k) f (s\<lparr>counter := counter s + 1\<rparr>) = Ok v s0 \<and>
       s1 = s0\<lparr>oo_heap := (oo_heap s0)[a := \<lparr>oo_func = None, oo_cache = Some v\<rparr>]\<rparr>"
    using f run s1 by blast
  show ?thesis
    using 1 2 3 4 5 forceValue_later applyMethod_later by blast
qed

text \<open>
  C1. Forcing is memoised and idempotent, in both variants. Take a thunk \<open>a\<close> that holds
  no cache, and a force of it that returns \<open>v\<close> in the store \<open>s1\<close>. That force
  incremented the counter, ran the recipe \<open>f\<close> of the node, and stored the result: in
  \<open>s1\<close> the node holds the cache \<open>v\<close> and no recipe. Forcing it again returns the same
  \<open>v\<close> and leaves \<open>s1\<close> as it is: no recipe runs and the counter is not incremented.
  This is irreversible: in every store that a later evaluation or application leaves,
  the node still holds the cache \<open>v\<close> and no recipe, and forcing it there, from whatever
  expression refers to it, again returns \<open>v\<close> and changes nothing.
\<close>

theorem forcing_memoized:
  "(evaluate (depth n) (Thunk a) s = Ok v s1 \<and> cache (thunkAt s a) = None \<longrightarrow>
      thunkAt s1 a = \<lparr>func = None, cache = Some v\<rparr> \<and>
      (\<exists>f k s0. func (thunkAt s a) = Some f \<and>
         runThunk (depth k) f (s\<lparr>evalCounter := evalCounter s + 1\<rparr>) = Ok v s0 \<and>
         s1 = s0\<lparr>heap := (heap s0)[a := \<lparr>func = None, cache = Some v\<rparr>]\<rparr>) \<and>
      evalCounter s < evalCounter s1 \<and>
      evaluate (depth (Suc m)) (Thunk a) s1 = Ok v s1 \<and>
      (\<forall>k e w s2. evaluate (depth k) e s1 = Ok w s2 \<longrightarrow>
         thunkAt s2 a = \<lparr>func = None, cache = Some v\<rparr> \<and>
         evaluate (depth (Suc m)) (Thunk a) s2 = Ok v s2) \<and>
      (\<forall>k args e s2. makeApply (depth k) args s1 = Ok e s2 \<longrightarrow>
         thunkAt s2 a = \<lparr>func = None, cache = Some v\<rparr> \<and>
         evaluate (depth (Suc m)) (Thunk a) s2 = Ok v s2)) \<and>
   (forceValue (oo_depth n) (OOThunk a) t = Ok v' t1 \<and> oo_cache (oo_thunkAt t a) = None \<longrightarrow>
      oo_thunkAt t1 a = \<lparr>oo_func = None, oo_cache = Some v'\<rparr> \<and>
      (\<exists>f k t0. oo_func (oo_thunkAt t a) = Some f \<and>
         oo_runThunk (oo_depth k) f (t\<lparr>counter := counter t + 1\<rparr>) = Ok v' t0 \<and>
         t1 = t0\<lparr>oo_heap := (oo_heap t0)[a := \<lparr>oo_func = None, oo_cache = Some v'\<rparr>]\<rparr>) \<and>
      counter t < counter t1 \<and>
      forceValue (oo_depth (Suc m)) (OOThunk a) t1 = Ok v' t1 \<and>
      (\<forall>k e w t2. forceValue (oo_depth k) e t1 = Ok w t2 \<longrightarrow>
         oo_thunkAt t2 a = \<lparr>oo_func = None, oo_cache = Some v'\<rparr> \<and>
         forceValue (oo_depth (Suc m)) (OOThunk a) t2 = Ok v' t2) \<and>
      (\<forall>k e arg w t2. applyMethod (oo_depth k) e arg t1 = Ok w t2 \<longrightarrow>
         oo_thunkAt t2 a = \<lparr>oo_func = None, oo_cache = Some v'\<rparr> \<and>
         forceValue (oo_depth (Suc m)) (OOThunk a) t2 = Ok v' t2))"
  (is "(?H1 \<longrightarrow> ?C1) \<and> (?H2 \<longrightarrow> ?C2)")
proof (rule conjI)
  show "?H1 \<longrightarrow> ?C1"
  proof (rule impI)
    assume h: "?H1"
    then have 1: "evaluate (depth n) (Thunk a) s = Ok v s1" and 2: "cache (thunkAt s a) = None"
      by simp_all
    show "?C1" using 1 2 by (rule evaluate_memoized)
  qed
  show "?H2 \<longrightarrow> ?C2"
  proof (rule impI)
    assume h: "?H2"
    then have 1: "forceValue (oo_depth n) (OOThunk a) t = Ok v' t1"
      and 2: "oo_cache (oo_thunkAt t a) = None"
      by simp_all
    show "?C2" using 1 2 by (rule forceValue_memoized)
  qed
qed

lemma oneThunk_forces:
  "evaluate (depth (Suc (Suc (Suc 0)))) (Thunk 0) oneThunk = Ok (NumberValue 7) oneThunkForced"
  by (simp add: oneThunk_def oneThunkForced_def evaluate_body_def runThunk_body_def thunkAt_def
      binaryOp_def makeNumber_def)

lemma oo_oneThunk_forces:
  "forceValue (oo_depth (Suc (Suc (Suc 0)))) (OOThunk 0) oo_oneThunk =
     Ok (OONumberValue 7) oo_oneThunkForced"
  by (simp add: oo_oneThunk_def oo_oneThunkForced_def forceValue_body_def oo_runThunk_body_def
      oo_thunkAt_def oo_binaryOp_def)

theorem forcing_memoized_witness:
  "evaluate (depth (Suc (Suc (Suc 0)))) (Thunk 0) oneThunk = Ok (NumberValue 7) oneThunkForced \<and>
   thunkAt oneThunkForced 0 = \<lparr>func = None, cache = Some (NumberValue 7)\<rparr> \<and>
   evaluate (depth (Suc 0)) (Thunk 0) oneThunkForced = Ok (NumberValue 7) oneThunkForced \<and>
   forceValue (oo_depth (Suc (Suc (Suc 0)))) (OOThunk 0) oo_oneThunk =
     Ok (OONumberValue 7) oo_oneThunkForced \<and>
   oo_thunkAt oo_oneThunkForced 0 = \<lparr>oo_func = None, oo_cache = Some (OONumberValue 7)\<rparr> \<and>
   forceValue (oo_depth (Suc 0)) (OOThunk 0) oo_oneThunkForced =
     Ok (OONumberValue 7) oo_oneThunkForced"
  using forcing_memoized [where n = "Suc (Suc (Suc 0))" and a = 0 and s = oneThunk
      and v = "NumberValue 7" and ?s1.0 = oneThunkForced and m = 0 and t = oo_oneThunk
      and v' = "OONumberValue 7" and ?t1.0 = oo_oneThunkForced]
    oneThunk_forces oo_oneThunk_forces
  by (simp add: oneThunk_def thunkAt_def oo_oneThunk_def oo_thunkAt_def)

section \<open>References\<close>

lemma lookup_cong_maps:
  assumes "envMaps s' = envMaps s"
  shows "lookup s' env name = lookup s env name"
  using assms
  by (induction s env name rule: lookup.induct) (auto simp: mapAt_def split: option.splits)

lemma lookup_counter [simp]: "lookup (s\<lparr>evalCounter := k\<rparr>) env name = lookup s env name"
  by (rule lookup_cong_maps) simp

lemma lookup_envDefine:
  assumes "envDefine env name e s = Ok u s'" and "envDefs env < length (envMaps s)"
  shows "lookup s' env name = Some e"
proof -
  obtain d p where env: "env = Environment d p" by (cases env)
  from assms(1) have fresh: "name \<notin> fst ` set (mapAt s d)"
    and s': "s' = s\<lparr>envMaps := (envMaps s)[d := mapAt s d @ [(name, e)]]\<rparr>"
    by (auto simp: envDefine_def env split: if_splits)
  have "mapAt s' d = mapAt s d @ [(name, e)]"
    using assms(2) by (simp add: s' mapAt_def env)
  moreover have "map_of (mapAt s d) name = None"
    using fresh by (simp add: map_of_eq_None_iff)
  ultimately show ?thesis by (simp add: env map_add_def)
qed

lemma reference_resolution:
  "(\<forall>e. lookup s env name = Some e \<longrightarrow> makeReference env name s = Ok e s) \<and>
   (lookup s env name = None \<longrightarrow>
      makeReference env name s =
        Ok (Thunk (length (heap s)))
           (s\<lparr>heap := heap s @ [\<lparr>func = Some (ReferenceRecipe env name), cache = None\<rparr>]\<rparr>)) \<and>
   (thunkAt s2 a = \<lparr>func = Some (ReferenceRecipe env name), cache = None\<rparr> \<longrightarrow>
      (lookup s2 env name = None \<longrightarrow>
         evaluate (depth (Suc (Suc n))) (Thunk a) s2 = Err (UndefinedReference name)) \<and>
      (\<forall>e. lookup s2 env name = Some e \<longrightarrow>
         evaluate (depth (Suc (Suc n))) (Thunk a) s2 =
           seq (evaluate (depth n) e (s2\<lparr>evalCounter := evalCounter s2 + 1\<rparr>))
             (\<lambda>v s'. Ok v (s'\<lparr>heap := (heap s')[a := \<lparr>func = None, cache = Some v\<rparr>]\<rparr>)))) \<and>
   (lookup s env name = None \<and> envDefs env < length (envMaps s) \<and>
    makeReference env name s = Ok t s1 \<and> envDefine env name e s1 = Ok u s3 \<longrightarrow>
      lookup s3 env name = Some e \<and>
      evaluate (depth (Suc (Suc n))) t s3 =
        seq (evaluate (depth n) e (s3\<lparr>evalCounter := evalCounter s3 + 1\<rparr>))
          (\<lambda>v s'. Ok v (s'\<lparr>heap := (heap s')[length (heap s) := \<lparr>func = None, cache = Some v\<rparr>]\<rparr>)))"
proof (intro conjI impI allI)
  fix e assume "lookup s env name = Some e"
  then show "makeReference env name s = Ok e s" by (simp add: makeReference_def)
next
  assume "lookup s env name = None"
  then show "makeReference env name s =
        Ok (Thunk (length (heap s)))
           (s\<lparr>heap := heap s @ [\<lparr>func = Some (ReferenceRecipe env name), cache = None\<rparr>]\<rparr>)"
    by (simp add: makeReference_def makeThunk_def)
next
  assume "thunkAt s2 a = \<lparr>func = Some (ReferenceRecipe env name), cache = None\<rparr>"
    and "lookup s2 env name = None"
  then show "evaluate (depth (Suc (Suc n))) (Thunk a) s2 = Err (UndefinedReference name)"
    by (simp add: evaluate_body_def runThunk_body_def)
next
  fix e
  assume "thunkAt s2 a = \<lparr>func = Some (ReferenceRecipe env name), cache = None\<rparr>"
    and "lookup s2 env name = Some e"
  then show "evaluate (depth (Suc (Suc n))) (Thunk a) s2 =
           seq (evaluate (depth n) e (s2\<lparr>evalCounter := evalCounter s2 + 1\<rparr>))
             (\<lambda>v s'. Ok v (s'\<lparr>heap := (heap s')[a := \<lparr>func = None, cache = Some v\<rparr>]\<rparr>))"
    by (simp add: evaluate_body_def runThunk_body_def)
next
  assume h: "lookup s env name = None \<and> envDefs env < length (envMaps s) \<and>
    makeReference env name s = Ok t s1 \<and> envDefine env name e s1 = Ok u s3"
  then have t: "t = Thunk (length (heap s))"
    and s1: "s1 = s\<lparr>heap := heap s @ [\<lparr>func = Some (ReferenceRecipe env name), cache = None\<rparr>]\<rparr>"
    by (auto simp: makeReference_def makeThunk_def)
  have d: "envDefs env < length (envMaps s1)" using h s1 by simp
  from h have def: "envDefine env name e s1 = Ok u s3" by simp
  show l: "lookup s3 env name = Some e" using def d by (rule lookup_envDefine)
  have "heap s3 = heap s1" using def by (auto simp: envDefine_def split: if_splits)
  then have th: "thunkAt s3 (length (heap s)) = \<lparr>func = Some (ReferenceRecipe env name), cache = None\<rparr>"
    by (simp add: thunkAt_def s1)
  show "evaluate (depth (Suc (Suc n))) t s3 =
        seq (evaluate (depth n) e (s3\<lparr>evalCounter := evalCounter s3 + 1\<rparr>))
          (\<lambda>v s'. Ok v (s'\<lparr>heap := (heap s')[length (heap s) := \<lparr>func = None, cache = Some v\<rparr>]\<rparr>))"
    using th l by (simp add: t evaluate_body_def runThunk_body_def)
qed


lemma oo_lookup_cong_maps:
  assumes "oo_envMaps s' = oo_envMaps s"
  shows "oo_lookup s' env name = oo_lookup s env name"
  using assms
  by (induction s env name rule: oo_lookup.induct) (auto simp: oo_mapAt_def split: option.splits)

lemma oo_lookup_counter [simp]: "oo_lookup (s\<lparr>counter := k\<rparr>) env name = oo_lookup s env name"
  by (rule oo_lookup_cong_maps) simp

lemma oo_lookup_envDefine:
  assumes "oo_envDefine env name e s = Ok u s'" and "envDefs env < length (oo_envMaps s)"
  shows "oo_lookup s' env name = Some e"
proof -
  obtain d p where env: "env = Environment d p" by (cases env)
  from assms(1) have fresh: "name \<notin> fst ` set (oo_mapAt s d)"
    and s': "s' = s\<lparr>oo_envMaps := (oo_envMaps s)[d := oo_mapAt s d @ [(name, e)]]\<rparr>"
    by (auto simp: oo_envDefine_def env split: if_splits)
  have "oo_mapAt s' d = oo_mapAt s d @ [(name, e)]"
    using assms(2) by (simp add: s' oo_mapAt_def env)
  moreover have "map_of (oo_mapAt s d) name = None"
    using fresh by (simp add: map_of_eq_None_iff)
  ultimately show ?thesis by (simp add: env map_add_def)
qed

lemma oo_reference_resolution:
  "(\<forall>e. oo_lookup s env name = Some e \<longrightarrow> oo_makeReference env name s = Ok e s) \<and>
   (oo_lookup s env name = None \<longrightarrow>
      oo_makeReference env name s =
        Ok (OOThunk (length (oo_heap s)))
           (s\<lparr>oo_heap := oo_heap s @ [\<lparr>oo_func = Some (OOReferenceRecipe env name), oo_cache = None\<rparr>]\<rparr>)) \<and>
   (oo_thunkAt s2 a = \<lparr>oo_func = Some (OOReferenceRecipe env name), oo_cache = None\<rparr> \<longrightarrow>
      (oo_lookup s2 env name = None \<longrightarrow>
         forceValue (oo_depth (Suc (Suc n))) (OOThunk a) s2 = Err (UndefinedReference name)) \<and>
      (\<forall>e. oo_lookup s2 env name = Some e \<longrightarrow>
         forceValue (oo_depth (Suc (Suc n))) (OOThunk a) s2 =
           seq (forceValue (oo_depth n) e (s2\<lparr>counter := counter s2 + 1\<rparr>))
             (\<lambda>v s'. Ok v (s'\<lparr>oo_heap := (oo_heap s')[a := \<lparr>oo_func = None, oo_cache = Some v\<rparr>]\<rparr>)))) \<and>
   (oo_lookup s env name = None \<and> envDefs env < length (oo_envMaps s) \<and>
    oo_makeReference env name s = Ok t s1 \<and> oo_envDefine env name e s1 = Ok u s3 \<longrightarrow>
      oo_lookup s3 env name = Some e \<and>
      forceValue (oo_depth (Suc (Suc n))) t s3 =
        seq (forceValue (oo_depth n) e (s3\<lparr>counter := counter s3 + 1\<rparr>))
          (\<lambda>v s'. Ok v (s'\<lparr>oo_heap := (oo_heap s')[length (oo_heap s) := \<lparr>oo_func = None, oo_cache = Some v\<rparr>]\<rparr>)))"
proof (intro conjI impI allI)
  fix e assume "oo_lookup s env name = Some e"
  then show "oo_makeReference env name s = Ok e s" by (simp add: oo_makeReference_def)
next
  assume "oo_lookup s env name = None"
  then show "oo_makeReference env name s =
        Ok (OOThunk (length (oo_heap s)))
           (s\<lparr>oo_heap := oo_heap s @ [\<lparr>oo_func = Some (OOReferenceRecipe env name), oo_cache = None\<rparr>]\<rparr>)"
    by (simp add: oo_makeReference_def newThunk_def)
next
  assume "oo_thunkAt s2 a = \<lparr>oo_func = Some (OOReferenceRecipe env name), oo_cache = None\<rparr>"
    and "oo_lookup s2 env name = None"
  then show "forceValue (oo_depth (Suc (Suc n))) (OOThunk a) s2 = Err (UndefinedReference name)"
    by (simp add: forceValue_body_def oo_runThunk_body_def)
next
  fix e
  assume "oo_thunkAt s2 a = \<lparr>oo_func = Some (OOReferenceRecipe env name), oo_cache = None\<rparr>"
    and "oo_lookup s2 env name = Some e"
  then show "forceValue (oo_depth (Suc (Suc n))) (OOThunk a) s2 =
           seq (forceValue (oo_depth n) e (s2\<lparr>counter := counter s2 + 1\<rparr>))
             (\<lambda>v s'. Ok v (s'\<lparr>oo_heap := (oo_heap s')[a := \<lparr>oo_func = None, oo_cache = Some v\<rparr>]\<rparr>))"
    by (simp add: forceValue_body_def oo_runThunk_body_def)
next
  assume h: "oo_lookup s env name = None \<and> envDefs env < length (oo_envMaps s) \<and>
    oo_makeReference env name s = Ok t s1 \<and> oo_envDefine env name e s1 = Ok u s3"
  then have t: "t = OOThunk (length (oo_heap s))"
    and s1: "s1 = s\<lparr>oo_heap := oo_heap s @ [\<lparr>oo_func = Some (OOReferenceRecipe env name), oo_cache = None\<rparr>]\<rparr>"
    by (auto simp: oo_makeReference_def newThunk_def)
  have d: "envDefs env < length (oo_envMaps s1)" using h s1 by simp
  from h have def: "oo_envDefine env name e s1 = Ok u s3" by simp
  show l: "oo_lookup s3 env name = Some e" using def d by (rule oo_lookup_envDefine)
  have "oo_heap s3 = oo_heap s1" using def by (auto simp: oo_envDefine_def split: if_splits)
  then have th: "oo_thunkAt s3 (length (oo_heap s)) =
      \<lparr>oo_func = Some (OOReferenceRecipe env name), oo_cache = None\<rparr>"
    by (simp add: oo_thunkAt_def s1)
  show "forceValue (oo_depth (Suc (Suc n))) t s3 =
        seq (forceValue (oo_depth n) e (s3\<lparr>counter := counter s3 + 1\<rparr>))
          (\<lambda>v s'. Ok v (s'\<lparr>oo_heap := (oo_heap s')[length (oo_heap s) := \<lparr>oo_func = None, oo_cache = Some v\<rparr>]\<rparr>))"
    using th l by (simp add: t forceValue_body_def oo_runThunk_body_def)
qed

text \<open>
  C7. Lazy reference resolution, in both variants. When the name resolves at the call,
  \<open>makeReference\<close> returns the bound expression itself and the store is unchanged.
  Otherwise it returns a fresh thunk that holds the environment and the name. Forcing
  that thunk, in whatever store \<open>s2\<close> it is still unforced, looks the name up again:
  unbound, the force throws \<open>Undefined reference\<close>; bound to \<open>e\<close>, the force is the force
  of \<open>e\<close>, whose value it caches. So a reference made before the definition works once
  the name is defined in the same environment (an environment of the store): after
  \<open>envDefine\<close> the name resolves and forcing the thunk forces the defined expression.
\<close>

theorem lazy_reference:
  "((\<forall>e. lookup s env name = Some e \<longrightarrow> makeReference env name s = Ok e s) \<and>
   (lookup s env name = None \<longrightarrow>
      makeReference env name s =
        Ok (Thunk (length (heap s)))
           (s\<lparr>heap := heap s @ [\<lparr>func = Some (ReferenceRecipe env name), cache = None\<rparr>]\<rparr>)) \<and>
   (thunkAt s2 a = \<lparr>func = Some (ReferenceRecipe env name), cache = None\<rparr> \<longrightarrow>
      (lookup s2 env name = None \<longrightarrow>
         evaluate (depth (Suc (Suc n))) (Thunk a) s2 = Err (UndefinedReference name)) \<and>
      (\<forall>e. lookup s2 env name = Some e \<longrightarrow>
         evaluate (depth (Suc (Suc n))) (Thunk a) s2 =
           seq (evaluate (depth n) e (s2\<lparr>evalCounter := evalCounter s2 + 1\<rparr>))
             (\<lambda>v s'. Ok v (s'\<lparr>heap := (heap s')[a := \<lparr>func = None, cache = Some v\<rparr>]\<rparr>)))) \<and>
   (lookup s env name = None \<and> envDefs env < length (envMaps s) \<and>
    makeReference env name s = Ok t s1 \<and> envDefine env name e s1 = Ok u s3 \<longrightarrow>
      lookup s3 env name = Some e \<and>
      evaluate (depth (Suc (Suc n))) t s3 =
        seq (evaluate (depth n) e (s3\<lparr>evalCounter := evalCounter s3 + 1\<rparr>))
          (\<lambda>v s'. Ok v (s'\<lparr>heap := (heap s')[length (heap s) := \<lparr>func = None, cache = Some v\<rparr>]\<rparr>)))) \<and>
   ((\<forall>e'. oo_lookup t0 env name = Some e' \<longrightarrow> oo_makeReference env name t0 = Ok e' t0) \<and>
   (oo_lookup t0 env name = None \<longrightarrow>
      oo_makeReference env name t0 =
        Ok (OOThunk (length (oo_heap t0)))
           (t0\<lparr>oo_heap := oo_heap t0 @ [\<lparr>oo_func = Some (OOReferenceRecipe env name), oo_cache = None\<rparr>]\<rparr>)) \<and>
   (oo_thunkAt t2 a = \<lparr>oo_func = Some (OOReferenceRecipe env name), oo_cache = None\<rparr> \<longrightarrow>
      (oo_lookup t2 env name = None \<longrightarrow>
         forceValue (oo_depth (Suc (Suc n))) (OOThunk a) t2 = Err (UndefinedReference name)) \<and>
      (\<forall>e'. oo_lookup t2 env name = Some e' \<longrightarrow>
         forceValue (oo_depth (Suc (Suc n))) (OOThunk a) t2 =
           seq (forceValue (oo_depth n) e' (t2\<lparr>counter := counter t2 + 1\<rparr>))
             (\<lambda>v t'. Ok v (t'\<lparr>oo_heap := (oo_heap t')[a := \<lparr>oo_func = None, oo_cache = Some v\<rparr>]\<rparr>)))) \<and>
   (oo_lookup t0 env name = None \<and> envDefs env < length (oo_envMaps t0) \<and>
    oo_makeReference env name t0 = Ok th t1 \<and> oo_envDefine env name e' t1 = Ok u' t3 \<longrightarrow>
      oo_lookup t3 env name = Some e' \<and>
      forceValue (oo_depth (Suc (Suc n))) th t3 =
        seq (forceValue (oo_depth n) e' (t3\<lparr>counter := counter t3 + 1\<rparr>))
          (\<lambda>v t'. Ok v (t'\<lparr>oo_heap := (oo_heap t')[length (oo_heap t0) := \<lparr>oo_func = None, oo_cache = Some v\<rparr>]\<rparr>))))"
  using reference_resolution [of s env name s2 a n t s1 e u s3]
    oo_reference_resolution [of t0 env name t2 a n th t1 "e'" "u'" t3]
  by (rule conjI)

theorem lazy_reference_witness:
  "makeReference forwardEnv ''g'' forwardStart = Ok (Thunk 0) forwardReferred \<and>
   envDefine forwardEnv ''g'' (V (makeNumber 42)) forwardReferred = Ok () forwardDefined \<and>
   evaluate (depth (Suc (Suc (Suc 0)))) (Thunk 0) forwardReferred = Err (UndefinedReference ''g'') \<and>
   evaluate (depth (Suc (Suc (Suc 0)))) (Thunk 0) forwardDefined = Ok (NumberValue 42) forwardForced \<and>
   makeReference forwardEnv ''g'' forwardDefined = Ok (V (makeNumber 42)) forwardDefined \<and>
   oo_makeReference forwardEnv ''g'' oo_forwardDefined =
     Ok (OOV (OONumberValue 42)) oo_forwardDefined \<and>
   oo_makeReference forwardEnv ''g'' oo_forwardStart = Ok (OOThunk 0) oo_forwardReferred \<and>
   oo_envDefine forwardEnv ''g'' (OOV (OONumberValue 42)) oo_forwardReferred = Ok () oo_forwardDefined \<and>
   forceValue (oo_depth (Suc (Suc (Suc 0)))) (OOThunk 0) oo_forwardReferred =
     Err (UndefinedReference ''g'') \<and>
   forceValue (oo_depth (Suc (Suc (Suc 0)))) (OOThunk 0) oo_forwardDefined =
     Ok (OONumberValue 42) oo_forwardForced"
proof -
  have 1: "lookup forwardStart forwardEnv ''g'' = None"
    by (simp add: forwardStart_def forwardEnv_def mapAt_def)
  have 2: "makeReference forwardEnv ''g'' forwardStart = Ok (Thunk 0) forwardReferred"
    by (simp add: makeReference_def forwardStart_def forwardEnv_def mapAt_def makeThunk_def
        forwardReferred_def)
  have 3: "envDefine forwardEnv ''g'' (V (makeNumber 42)) forwardReferred = Ok () forwardDefined"
    by (simp add: envDefine_def forwardReferred_def forwardDefined_def forwardEnv_def mapAt_def)
  have 4: "envDefs forwardEnv < length (envMaps forwardStart)"
    by (simp add: forwardEnv_def forwardStart_def)
  have 5: "thunkAt forwardReferred 0 = \<lparr>func = Some (ReferenceRecipe forwardEnv ''g''), cache = None\<rparr>"
    by (simp add: forwardReferred_def thunkAt_def)
  have 6: "lookup forwardReferred forwardEnv ''g'' = None"
    by (simp add: forwardReferred_def forwardEnv_def mapAt_def)
  have 7: "evaluate (depth (Suc 0)) (V (makeNumber 42))
      (forwardDefined\<lparr>evalCounter := evalCounter forwardDefined + 1\<rparr>) =
      Ok (NumberValue 42) (forwardDefined\<lparr>evalCounter := evalCounter forwardDefined + 1\<rparr>)"
    by (simp add: evaluate_body_def makeNumber_def)
  have 8: "(forwardDefined\<lparr>evalCounter := evalCounter forwardDefined + 1\<rparr>)
      \<lparr>heap := (heap (forwardDefined\<lparr>evalCounter := evalCounter forwardDefined + 1\<rparr>))
         [length (heap forwardStart) := \<lparr>func = None, cache = Some (NumberValue 42)\<rparr>]\<rparr> = forwardForced"
    by (simp add: forwardDefined_def forwardForced_def forwardStart_def)
  have o1: "oo_lookup oo_forwardStart forwardEnv ''g'' = None"
    by (simp add: oo_forwardStart_def forwardEnv_def oo_mapAt_def)
  have o2: "oo_makeReference forwardEnv ''g'' oo_forwardStart = Ok (OOThunk 0) oo_forwardReferred"
    by (simp add: oo_makeReference_def oo_forwardStart_def forwardEnv_def oo_mapAt_def newThunk_def
        oo_forwardReferred_def)
  have o3: "oo_envDefine forwardEnv ''g'' (OOV (OONumberValue 42)) oo_forwardReferred =
      Ok () oo_forwardDefined"
    by (simp add: oo_envDefine_def oo_forwardReferred_def oo_forwardDefined_def forwardEnv_def
        oo_mapAt_def)
  have o4: "envDefs forwardEnv < length (oo_envMaps oo_forwardStart)"
    by (simp add: forwardEnv_def oo_forwardStart_def)
  have o5: "oo_thunkAt oo_forwardReferred 0 =
      \<lparr>oo_func = Some (OOReferenceRecipe forwardEnv ''g''), oo_cache = None\<rparr>"
    by (simp add: oo_forwardReferred_def oo_thunkAt_def)
  have o6: "oo_lookup oo_forwardReferred forwardEnv ''g'' = None"
    by (simp add: oo_forwardReferred_def forwardEnv_def oo_mapAt_def)
  have o7: "forceValue (oo_depth (Suc 0)) (OOV (OONumberValue 42))
      (oo_forwardDefined\<lparr>counter := counter oo_forwardDefined + 1\<rparr>) =
      Ok (OONumberValue 42) (oo_forwardDefined\<lparr>counter := counter oo_forwardDefined + 1\<rparr>)"
    by (simp add: forceValue_body_def)
  have o8: "(oo_forwardDefined\<lparr>counter := counter oo_forwardDefined + 1\<rparr>)
      \<lparr>oo_heap := (oo_heap (oo_forwardDefined\<lparr>counter := counter oo_forwardDefined + 1\<rparr>))
         [length (oo_heap oo_forwardStart) := \<lparr>oo_func = None, oo_cache = Some (OONumberValue 42)\<rparr>]\<rparr> =
      oo_forwardForced"
    by (simp add: oo_forwardDefined_def oo_forwardForced_def oo_forwardStart_def)
  have 9: "lookup forwardDefined forwardEnv ''g'' = Some (V (makeNumber 42))"
    by (simp add: forwardDefined_def forwardEnv_def mapAt_def)
  have o9: "oo_lookup oo_forwardDefined forwardEnv ''g'' = Some (OOV (OONumberValue 42))"
    by (simp add: oo_forwardDefined_def forwardEnv_def oo_mapAt_def)
  show ?thesis
    using lazy_reference [where s = forwardDefined and env = forwardEnv and name = "''g''"
        and ?t0.0 = oo_forwardDefined] 9 o9
      lazy_reference [where s = forwardStart and env = forwardEnv and name = "''g''"
        and ?s2.0 = forwardReferred and a = 0 and n = "Suc 0" and t = "Thunk 0"
        and ?s1.0 = forwardReferred and e = "V (makeNumber 42)" and u = "()"
        and ?s3.0 = forwardDefined and ?t0.0 = oo_forwardStart and ?t2.0 = oo_forwardReferred
        and th = "OOThunk 0" and ?t1.0 = oo_forwardReferred and e' = "OOV (OONumberValue 42)"
        and u' = "()" and ?t3.0 = oo_forwardDefined]
      1 2 3 4 5 6 7 8 o1 o2 o3 o4 o5 o6 o7 o8
    by simp
qed

section \<open>Canonicalization\<close>

lemma evaluate_forced:
  "forcedValue s e = Some v \<Longrightarrow> evaluate (depth (Suc n)) e s = Ok v s"
  by (auto simp: forcedValue_def evaluate_body_def split: expr.splits)

lemma ge1E: "1 \<le> m \<Longrightarrow> \<exists>j. m = Suc j"
  by presburger

lemma ge2E: "2 \<le> m \<Longrightarrow> \<exists>j. m = Suc (Suc j)"
  by presburger

lemma ge6E: "6 \<le> m \<Longrightarrow> \<exists>j. m = Suc (Suc (Suc (Suc (Suc (Suc j)))))"
  by presburger

lemma evaluate_forced_ge:
  assumes "forcedValue s e = Some v" and "1 \<le> m"
  shows "evaluate (depth m) e s = Ok v s"
  using ge1E [OF assms(2)] evaluate_forced [OF assms(1)] by auto

lemma isNil_tagged:
  assumes "2 \<le> m"
  shows "isNil (depth m) (V NilValue) s = Ok True s"
    and "isNil (depth m) (V (ConsValue a b)) s = Ok False s"
    and "isNil (depth m) (V (NumberValue i)) s = Ok False s"
  using ge2E [OF assms] by (auto simp: isNil_body_def evaluate_body_def)

lemma makeCar_cons:
  assumes "6 \<le> m"
  shows "makeCar (depth m) (V (ConsValue a b)) s = Ok a s"
  using ge6E [OF assms]
  by (auto simp: makeCar_body_def makeApply_body_def makeApplyStep_body_def callFunc_body_def
      call2_def makeBoolean_def theTrue_def makeFunc2_def)

lemma makeCdr_cons:
  assumes "6 \<le> m"
  shows "makeCdr (depth m) (V (ConsValue a b)) s = Ok b s"
  using ge6E [OF assms]
  by (auto simp: makeCdr_body_def makeApply_body_def makeApplyStep_body_def callFunc_body_def
      call2_def makeBoolean_def theFalse_def makeFunc2_def)

lemma reduceRight_snoc:
  "reduceRight (\<lambda>cdr car. ConsData car cdr) (elems @ [d]) s = Ok (foldr ConsData elems d) s"
  by (simp add: reduceRight_def foldl_conv_foldr)

lemma finish_Nil [simp]: "finish [] d = d"
  by (simp add: finish_def split: staticData.splits)

lemma finish_step:
  "finish (elems @ [canonical a]) (canonical b) = finish elems (canonical (TCons a b))"
  by (simp add: finish_def split: staticData.splits)

lemma cost_ge: "8 \<le> cost t"
  by (induction t) auto

lemma exprToStaticData_number:
  assumes "2 \<le> m"
  shows "exprToStaticData m (V (NumberValue i)) s = Ok (NumberData i) s"
  using ge2E [OF assms] by (auto simp: evaluate_body_def)

lemma canonicalize_tagged:
  "(\<forall>e v n elems. represents s t e \<longrightarrow> forcedValue s e = Some v \<longrightarrow> cost t \<le> n \<longrightarrow>
      exprToStaticData_loop n elems v s = Ok (finish elems (canonical t)) s) \<and>
   (\<forall>e n. represents s t e \<longrightarrow> cost t \<le> n \<longrightarrow>
      exprToStaticData (Suc n) e s = Ok (canonical t) s)"
proof (induction t)
  case (TNum i)
  have loop: "exprToStaticData_loop n elems v s = Ok (finish elems (canonical (TNum i))) s"
    if "represents s (TNum i) e" "forcedValue s e = Some v" "cost (TNum i) \<le> n" for e v n elems
  proof -
    from that have v: "v = NumberValue i" by simp
    from that obtain m where n: "n = Suc m" and m: "2 \<le> m" by (cases n) auto
    show ?thesis
      by (simp add: n v exprToStaticData_number [OF m] reduceRight_snoc finish_def)
  qed
  have top: "exprToStaticData (Suc n) e s = Ok (canonical (TNum i)) s"
    if "represents s (TNum i) e" "cost (TNum i) \<le> n" for e n
  proof -
    from that have "evaluate (depth n) e s = Ok (NumberValue i) s"
      by (intro evaluate_forced_ge) auto
    then show ?thesis by simp
  qed
  show ?case using loop top by blast
next
  case TNil
  have loop: "exprToStaticData_loop n elems v s = Ok (finish elems (canonical TNil)) s"
    if "represents s TNil e" "forcedValue s e = Some v" "cost TNil \<le> n" for e v n elems
  proof -
    from that have v: "v = NilValue" by simp
    from that obtain m where n: "n = Suc m" and m: "2 \<le> m" by (cases n) auto
    show ?thesis
      by (simp add: n v isNil_tagged [OF m] finish_def)
  qed
  have top: "exprToStaticData (Suc n) e s = Ok (canonical TNil) s"
    if "represents s TNil e" "cost TNil \<le> n" for e n
  proof -
    from that have "evaluate (depth n) e s = Ok NilValue s"
      by (intro evaluate_forced_ge) auto
    then show ?thesis using loop [OF that(1) _ that(2), of NilValue "[]"] that by simp
  qed
  show ?case using loop top by blast
next
  case (TCons ta tb)
  have loop: "exprToStaticData_loop n elems v s = Ok (finish elems (canonical (TCons ta tb))) s"
    if r: "represents s (TCons ta tb) e" and fv: "forcedValue s e = Some v"
      and c: "cost (TCons ta tb) \<le> n" for e v n elems
  proof -
    from r fv obtain a b where v: "v = ConsValue a b"
      and ra: "represents s ta a" and rb: "represents s tb b"
      by (auto split: val.splits)
    obtain vb where vb: "forcedValue s b = Some vb"
      using rb by (cases tb) (auto split: option.splits)
    from c obtain m where n: "n = Suc m" and m: "cost ta + cost tb \<le> m" by (cases n) auto
    have m6: "6 \<le> m" and m2: "2 \<le> m" and m1: "1 \<le> m"
      using m cost_ge [of ta] by auto
    obtain j where j: "m = Suc j" and ja: "cost ta \<le> j"
      using m cost_ge [of tb] by (cases m) auto
    have A: "exprToStaticData m a s = Ok (canonical ta) s"
      using TCons.IH(1) ra ja unfolding j by blast
    have B: "exprToStaticData_loop m (elems @ [canonical ta]) vb s =
        Ok (finish (elems @ [canonical ta]) (canonical tb)) s"
      using TCons.IH(2) rb vb m by (metis add_leD2)
    show ?thesis
      by (simp add: n v isNil_tagged [OF m2] makeCar_cons [OF m6] makeCdr_cons [OF m6] A
          evaluate_forced_ge [OF vb m1] B finish_step)
  qed
  have top: "exprToStaticData (Suc n) e s = Ok (canonical (TCons ta tb)) s"
    if r: "represents s (TCons ta tb) e" and c: "cost (TCons ta tb) \<le> n" for e n
  proof -
    from r obtain a b where fv: "forcedValue s e = Some (ConsValue a b)"
      by (auto split: option.splits val.splits)
    have "1 \<le> n" using c by simp
    then have "evaluate (depth n) e s = Ok (ConsValue a b) s"
      using fv by (intro evaluate_forced_ge)
    then show ?thesis using loop [OF r fv c, of "[]"] by simp
  qed
  show ?case using loop top by blast
qed


lemma forceValue_forced_ge:
  assumes "oo_forcedValue s e = Some v" and "1 \<le> m"
  shows "forceValue (oo_depth m) e s = Ok v s"
  using ge1E [OF assms(2)] assms(1)
  by (auto simp: oo_forcedValue_def forceValue_body_def split: oo_expr.splits)

lemma reduceRight_snocM:
  "reduceRight (\<lambda>cdr car. ConsModulatable car cdr) (elems @ [d]) s =
     Ok (foldr ConsModulatable elems d) s"
  by (simp add: reduceRight_def foldl_conv_foldr)

lemma finishM_Nil [simp]: "finishM [] d = d"
  by (simp add: finishM_def split: modulatable.splits)

lemma finishM_step:
  "finishM (elems @ [canonicalM a]) (canonicalM b) = finishM elems (canonicalM (TCons a b))"
  by (simp add: finishM_def split: modulatable.splits)

lemma forceModulatable_tagged:
  "(\<forall>e v n elems. oo_represents s t e \<longrightarrow> oo_forcedValue s e = Some v \<longrightarrow> cost t \<le> n \<longrightarrow>
      forceModulatable_loop n elems v s = Ok (finishM elems (canonicalM t)) s) \<and>
   (\<forall>e n. oo_represents s t e \<longrightarrow> cost t \<le> n \<longrightarrow>
      forceModulatable (Suc n) e s = Ok (canonicalM t) s)"
proof (induction t)
  case (TNum i)
  have loop: "forceModulatable_loop n elems v s = Ok (finishM elems (canonicalM (TNum i))) s"
    if "oo_represents s (TNum i) e" "oo_forcedValue s e = Some v" "cost (TNum i) \<le> n"
    for e v n elems
  proof -
    from that have v: "v = OONumberValue i" by simp
    from that obtain m where n: "n = Suc m" by (cases n) auto
    show ?thesis by (simp add: n v reduceRight_snocM finishM_def)
  qed
  have top: "forceModulatable (Suc n) e s = Ok (canonicalM (TNum i)) s"
    if r: "oo_represents s (TNum i) e" and c: "cost (TNum i) \<le> n" for e n
  proof -
    from r have fv: "oo_forcedValue s e = Some (OONumberValue i)" by simp
    have "1 \<le> n" using c by simp
    with fv have "forceValue (oo_depth n) e s = Ok (OONumberValue i) s"
      by (rule forceValue_forced_ge)
    then show ?thesis using loop [OF r fv c, of "[]"] by simp
  qed
  show ?case using loop top by blast
next
  case TNil
  have loop: "forceModulatable_loop n elems v s = Ok (finishM elems (canonicalM TNil)) s"
    if "oo_represents s TNil e" "oo_forcedValue s e = Some v" "cost TNil \<le> n" for e v n elems
  proof -
    from that have v: "v = OONilValue" by simp
    from that obtain m where n: "n = Suc m" by (cases n) auto
    show ?thesis by (simp add: n v finishM_def)
  qed
  have top: "forceModulatable (Suc n) e s = Ok (canonicalM TNil) s"
    if r: "oo_represents s TNil e" and c: "cost TNil \<le> n" for e n
  proof -
    from r have fv: "oo_forcedValue s e = Some OONilValue" by simp
    have "1 \<le> n" using c by simp
    with fv have "forceValue (oo_depth n) e s = Ok OONilValue s"
      by (rule forceValue_forced_ge)
    then show ?thesis using loop [OF r fv c, of "[]"] by simp
  qed
  show ?case using loop top by blast
next
  case (TCons ta tb)
  have loop: "forceModulatable_loop n elems v s = Ok (finishM elems (canonicalM (TCons ta tb))) s"
    if r: "oo_represents s (TCons ta tb) e" and fv: "oo_forcedValue s e = Some v"
      and c: "cost (TCons ta tb) \<le> n" for e v n elems
  proof -
    from r fv obtain a b where v: "v = OOConsValue a b"
      and ra: "oo_represents s ta a" and rb: "oo_represents s tb b"
      by (auto split: oo_value.splits)
    obtain vb where vb: "oo_forcedValue s b = Some vb"
      using rb by (cases tb) (auto split: option.splits)
    from c obtain m where n: "n = Suc m" and m: "cost ta + cost tb \<le> m" by (cases n) auto
    have m1: "1 \<le> m" using m cost_ge [of ta] by auto
    obtain j where j: "m = Suc j" and ja: "cost ta \<le> j"
      using m cost_ge [of tb] by (cases m) auto
    have A: "forceModulatable m a s = Ok (canonicalM ta) s"
      using TCons.IH(1) ra ja unfolding j by blast
    have B: "forceModulatable_loop m (elems @ [canonicalM ta]) vb s =
        Ok (finishM (elems @ [canonicalM ta]) (canonicalM tb)) s"
      using TCons.IH(2) rb vb m by (metis add_leD2)
    show ?thesis
      by (simp add: n v value_uncons_def A forceValue_forced_ge [OF vb m1] B finishM_step)
  qed
  have top: "forceModulatable (Suc n) e s = Ok (canonicalM (TCons ta tb)) s"
    if r: "oo_represents s (TCons ta tb) e" and c: "cost (TCons ta tb) \<le> n" for e n
  proof -
    from r obtain a b where fv: "oo_forcedValue s e = Some (OOConsValue a b)"
      by (auto split: option.splits oo_value.splits)
    have "1 \<le> n" using c by simp
    with fv have "forceValue (oo_depth n) e s = Ok (OOConsValue a b) s"
      by (rule forceValue_forced_ge)
    then show ?thesis using loop [OF r fv c, of "[]"] by simp
  qed
  show ?case using loop top by blast
qed

lemma exprToStaticData_tagged:
  assumes "represents s t e" and "cost t < n"
  shows "exprToStaticData n e s = Ok (canonical t) s"
proof -
  from assms(2) obtain m where "n = Suc m" and "cost t \<le> m" by (cases n) auto
  then show ?thesis using canonicalize_tagged [of s t] assms(1) by blast
qed

lemma forceModulatable_tagged_top:
  assumes "oo_represents s t e" and "cost t < n"
  shows "forceModulatable n e s = Ok (canonicalM t) s"
proof -
  from assms(2) obtain m where "n = Suc m" and "cost t \<le> m" by (cases n) auto
  then show ?thesis using forceModulatable_tagged [of s t] assms(1) by blast
qed

lemma asStaticData_canonicalM: "asStaticData (canonicalM t) = canonical t"
  by (induction t) (auto split: modulatable.splits staticData.splits)

lemma staticDataEqual_iff: "staticDataEqual a b \<longleftrightarrow> a = b"
proof (induction a arbitrary: b)
  case (NumberData i)
  show ?case by (cases b) auto
next
  case (ListData xs)
  have "list_all2 staticDataEqual xs ys \<longleftrightarrow> xs = ys" for ys
    using ListData by (induction xs arbitrary: ys) (auto simp: list_all2_Cons1)
  then show ?case by (cases b) auto
next
  case (ConsData a1 a2)
  then show ?case by (cases b) auto
qed

lemma forceValue_mono:
  assumes "n \<le> m" and "forceValue (oo_depth n) e s \<noteq> Timeout"
  shows "forceValue (oo_depth m) e s = forceValue (oo_depth n) e s"
  using forceValue_le [OF assms(1), of e s] assms(2) by (rule le_result_eq)

lemma walk_NumE:
  assumes "walk n (TNum i) e s = Some s'"
  shows "evaluate (depth n) e s = Ok (NumberValue i) s'"
  using assms by (auto split: outcome.splits val.splits if_splits)

lemma walk_NilE:
  assumes "walk n TNil e s = Some s'"
  shows "evaluate (depth n) e s = Ok NilValue s'"
  using assms by (auto split: outcome.splits val.splits)

lemma walk_ConsE:
  assumes "walk n (TCons ta tb) e s = Some s'"
  shows "\<exists>a b s1 s2. evaluate (depth n) e s = Ok (ConsValue a b) s1 \<and>
    walk n ta a s1 = Some s2 \<and> walk n tb b s2 = Some s'"
  using assms by (auto split: outcome.splits val.splits option.splits)

lemma evaluate_at:
  assumes "evaluate (depth n) e s = Ok v s1" and "n \<le> m"
  shows "evaluate (depth m) e s = Ok v s1"
  using evaluate_mono [OF assms(2), of e s] assms(1) by simp

lemma forceValue_at:
  assumes "forceValue (oo_depth n) e s = Ok v s1" and "n \<le> m"
  shows "forceValue (oo_depth m) e s = Ok v s1"
  using forceValue_mono [OF assms(2), of e s] assms(1) by simp

lemma canonicalize_walk:
  "(\<forall>e s s' k elems. walk n t e s = Some s' \<longrightarrow> n + cost t \<le> k \<longrightarrow>
      (\<exists>v s1. evaluate (depth n) e s = Ok v s1 \<and>
         exprToStaticData_loop k elems v s1 = Ok (finish elems (canonical t)) s')) \<and>
   (\<forall>e s s' k. walk n t e s = Some s' \<longrightarrow> n + cost t \<le> k \<longrightarrow>
      exprToStaticData (Suc k) e s = Ok (canonical t) s')"
proof (induction t)
  case (TNum i)
  have loop: "\<exists>v s1. evaluate (depth n) e s = Ok v s1 \<and>
      exprToStaticData_loop k elems v s1 = Ok (finish elems (canonical (TNum i))) s'"
    if w: "walk n (TNum i) e s = Some s'" and c: "n + cost (TNum i) \<le> k" for e s s' k elems
  proof -
    from c obtain m where k: "k = Suc m" and m: "2 \<le> m" by (cases k) auto
    have "exprToStaticData_loop k elems (NumberValue i) s' =
        Ok (finish elems (canonical (TNum i))) s'"
      by (simp add: k exprToStaticData_number [OF m] reduceRight_snoc finish_def)
    with walk_NumE [OF w] show ?thesis by blast
  qed
  have top: "exprToStaticData (Suc k) e s = Ok (canonical (TNum i)) s'"
    if w: "walk n (TNum i) e s = Some s'" and c: "n + cost (TNum i) \<le> k" for e s s' k
  proof -
    have "n \<le> k" using c by simp
    with walk_NumE [OF w] have "evaluate (depth k) e s = Ok (NumberValue i) s'"
      by (rule evaluate_at)
    then show ?thesis by simp
  qed
  show ?case using loop top by blast
next
  case TNil
  have loop: "\<exists>v s1. evaluate (depth n) e s = Ok v s1 \<and>
      exprToStaticData_loop k elems v s1 = Ok (finish elems (canonical TNil)) s'"
    if w: "walk n TNil e s = Some s'" and c: "n + cost TNil \<le> k" for e s s' k elems
  proof -
    from c obtain m where k: "k = Suc m" and m: "2 \<le> m" by (cases k) auto
    have "exprToStaticData_loop k elems NilValue s' = Ok (finish elems (canonical TNil)) s'"
      by (simp add: k isNil_tagged [OF m] finish_def)
    with walk_NilE [OF w] show ?thesis by blast
  qed
  have top: "exprToStaticData (Suc k) e s = Ok (canonical TNil) s'"
    if w: "walk n TNil e s = Some s'" and c: "n + cost TNil \<le> k" for e s s' k
  proof -
    have "n \<le> k" using c by simp
    with walk_NilE [OF w] have "evaluate (depth k) e s = Ok NilValue s'"
      by (rule evaluate_at)
    moreover have "exprToStaticData_loop k [] NilValue s' = Ok (canonical TNil) s'"
      using loop [OF w c, of "[]"] walk_NilE [OF w] by simp
    ultimately show ?thesis by simp
  qed
  show ?case using loop top by blast
next
  case (TCons ta tb)
  have loop: "\<exists>v s1. evaluate (depth n) e s = Ok v s1 \<and>
      exprToStaticData_loop k elems v s1 = Ok (finish elems (canonical (TCons ta tb))) s'"
    if w: "walk n (TCons ta tb) e s = Some s'" and c: "n + cost (TCons ta tb) \<le> k"
    for e s s' k elems
  proof -
    from walk_ConsE [OF w] obtain a b s1 s2
      where ev: "evaluate (depth n) e s = Ok (ConsValue a b) s1"
        and wa: "walk n ta a s1 = Some s2" and wb: "walk n tb b s2 = Some s'"
      by blast
    from c obtain m where k: "k = Suc m" and m: "n + (cost ta + cost tb) \<le> m"
      by (cases k) auto
    have m6: "6 \<le> m" and m2: "2 \<le> m" and nm: "n \<le> m"
      using m cost_ge [of ta] by auto
    obtain j where j: "m = Suc j" and ja: "n + cost ta \<le> j"
      using m cost_ge [of tb] by (cases m) auto
    have mb: "n + cost tb \<le> m" using m by simp
    have A: "exprToStaticData m a s1 = Ok (canonical ta) s2"
      using TCons.IH(1) wa ja unfolding j by blast
    obtain vb s3 where evb: "evaluate (depth n) b s2 = Ok vb s3"
      and B: "exprToStaticData_loop m (elems @ [canonical ta]) vb s3 =
        Ok (finish (elems @ [canonical ta]) (canonical tb)) s'"
      using TCons.IH(2) wb mb by blast
    have "exprToStaticData_loop k elems (ConsValue a b) s1 =
        Ok (finish elems (canonical (TCons ta tb))) s'"
      by (simp add: k isNil_tagged [OF m2] makeCar_cons [OF m6] makeCdr_cons [OF m6] A
          evaluate_at [OF evb nm] B finish_step)
    with ev show ?thesis by blast
  qed
  have top: "exprToStaticData (Suc k) e s = Ok (canonical (TCons ta tb)) s'"
    if w: "walk n (TCons ta tb) e s = Some s'" and c: "n + cost (TCons ta tb) \<le> k"
    for e s s' k
  proof -
    from walk_ConsE [OF w] obtain a b s1
      where ev: "evaluate (depth n) e s = Ok (ConsValue a b) s1"
      by blast
    have "n \<le> k" using c by simp
    with ev have evk: "evaluate (depth k) e s = Ok (ConsValue a b) s1"
      by (rule evaluate_at)
    have "exprToStaticData_loop k [] (ConsValue a b) s1 = Ok (canonical (TCons ta tb)) s'"
      using loop [OF w c, of "[]"] ev by simp
    with evk show ?thesis by simp
  qed
  show ?case using loop top by blast
qed

lemma oo_walk_NumE:
  assumes "oo_walk n (TNum i) e s = Some s'"
  shows "forceValue (oo_depth n) e s = Ok (OONumberValue i) s'"
  using assms by (auto split: outcome.splits oo_value.splits if_splits)

lemma oo_walk_NilE:
  assumes "oo_walk n TNil e s = Some s'"
  shows "forceValue (oo_depth n) e s = Ok OONilValue s'"
  using assms by (auto split: outcome.splits oo_value.splits)

lemma oo_walk_ConsE:
  assumes "oo_walk n (TCons ta tb) e s = Some s'"
  shows "\<exists>a b s1 s2. forceValue (oo_depth n) e s = Ok (OOConsValue a b) s1 \<and>
    oo_walk n ta a s1 = Some s2 \<and> oo_walk n tb b s2 = Some s'"
  using assms by (auto split: outcome.splits oo_value.splits option.splits)

lemma forceModulatable_walk:
  "(\<forall>e s s' k elems. oo_walk n t e s = Some s' \<longrightarrow> n + cost t \<le> k \<longrightarrow>
      (\<exists>v s1. forceValue (oo_depth n) e s = Ok v s1 \<and>
         forceModulatable_loop k elems v s1 = Ok (finishM elems (canonicalM t)) s')) \<and>
   (\<forall>e s s' k. oo_walk n t e s = Some s' \<longrightarrow> n + cost t \<le> k \<longrightarrow>
      forceModulatable (Suc k) e s = Ok (canonicalM t) s')"
proof (induction t)
  case (TNum i)
  have loop: "\<exists>v s1. forceValue (oo_depth n) e s = Ok v s1 \<and>
      forceModulatable_loop k elems v s1 = Ok (finishM elems (canonicalM (TNum i))) s'"
    if w: "oo_walk n (TNum i) e s = Some s'" and c: "n + cost (TNum i) \<le> k" for e s s' k elems
  proof -
    from c obtain m where k: "k = Suc m" by (cases k) auto
    have "forceModulatable_loop k elems (OONumberValue i) s' =
        Ok (finishM elems (canonicalM (TNum i))) s'"
      by (simp add: k reduceRight_snocM finishM_def)
    with oo_walk_NumE [OF w] show ?thesis by blast
  qed
  have top: "forceModulatable (Suc k) e s = Ok (canonicalM (TNum i)) s'"
    if w: "oo_walk n (TNum i) e s = Some s'" and c: "n + cost (TNum i) \<le> k" for e s s' k
  proof -
    have "n \<le> k" using c by simp
    with oo_walk_NumE [OF w] have "forceValue (oo_depth k) e s = Ok (OONumberValue i) s'"
      by (rule forceValue_at)
    moreover have "forceModulatable_loop k [] (OONumberValue i) s' =
        Ok (canonicalM (TNum i)) s'"
      using loop [OF w c, of "[]"] oo_walk_NumE [OF w] by simp
    ultimately show ?thesis by simp
  qed
  show ?case using loop top by blast
next
  case TNil
  have loop: "\<exists>v s1. forceValue (oo_depth n) e s = Ok v s1 \<and>
      forceModulatable_loop k elems v s1 = Ok (finishM elems (canonicalM TNil)) s'"
    if w: "oo_walk n TNil e s = Some s'" and c: "n + cost TNil \<le> k" for e s s' k elems
  proof -
    from c obtain m where k: "k = Suc m" by (cases k) auto
    have "forceModulatable_loop k elems OONilValue s' = Ok (finishM elems (canonicalM TNil)) s'"
      by (simp add: k finishM_def)
    with oo_walk_NilE [OF w] show ?thesis by blast
  qed
  have top: "forceModulatable (Suc k) e s = Ok (canonicalM TNil) s'"
    if w: "oo_walk n TNil e s = Some s'" and c: "n + cost TNil \<le> k" for e s s' k
  proof -
    have "n \<le> k" using c by simp
    with oo_walk_NilE [OF w] have "forceValue (oo_depth k) e s = Ok OONilValue s'"
      by (rule forceValue_at)
    moreover have "forceModulatable_loop k [] OONilValue s' = Ok (canonicalM TNil) s'"
      using loop [OF w c, of "[]"] oo_walk_NilE [OF w] by simp
    ultimately show ?thesis by simp
  qed
  show ?case using loop top by blast
next
  case (TCons ta tb)
  have loop: "\<exists>v s1. forceValue (oo_depth n) e s = Ok v s1 \<and>
      forceModulatable_loop k elems v s1 = Ok (finishM elems (canonicalM (TCons ta tb))) s'"
    if w: "oo_walk n (TCons ta tb) e s = Some s'" and c: "n + cost (TCons ta tb) \<le> k"
    for e s s' k elems
  proof -
    from oo_walk_ConsE [OF w] obtain a b s1 s2
      where ev: "forceValue (oo_depth n) e s = Ok (OOConsValue a b) s1"
        and wa: "oo_walk n ta a s1 = Some s2" and wb: "oo_walk n tb b s2 = Some s'"
      by blast
    from c obtain m where k: "k = Suc m" and m: "n + (cost ta + cost tb) \<le> m"
      by (cases k) auto
    have nm: "n \<le> m" using m by simp
    obtain j where j: "m = Suc j" and ja: "n + cost ta \<le> j"
      using m cost_ge [of tb] by (cases m) auto
    have mb: "n + cost tb \<le> m" using m by simp
    have A: "forceModulatable m a s1 = Ok (canonicalM ta) s2"
      using TCons.IH(1) wa ja unfolding j by blast
    obtain vb s3 where evb: "forceValue (oo_depth n) b s2 = Ok vb s3"
      and B: "forceModulatable_loop m (elems @ [canonicalM ta]) vb s3 =
        Ok (finishM (elems @ [canonicalM ta]) (canonicalM tb)) s'"
      using TCons.IH(2) wb mb by blast
    have "forceModulatable_loop k elems (OOConsValue a b) s1 =
        Ok (finishM elems (canonicalM (TCons ta tb))) s'"
      by (simp add: k value_uncons_def A forceValue_at [OF evb nm] B finishM_step)
    with ev show ?thesis by blast
  qed
  have top: "forceModulatable (Suc k) e s = Ok (canonicalM (TCons ta tb)) s'"
    if w: "oo_walk n (TCons ta tb) e s = Some s'" and c: "n + cost (TCons ta tb) \<le> k"
    for e s s' k
  proof -
    from oo_walk_ConsE [OF w] obtain a b s1
      where ev: "forceValue (oo_depth n) e s = Ok (OOConsValue a b) s1"
      by blast
    have "n \<le> k" using c by simp
    with ev have evk: "forceValue (oo_depth k) e s = Ok (OOConsValue a b) s1"
      by (rule forceValue_at)
    have "forceModulatable_loop k [] (OOConsValue a b) s1 = Ok (canonicalM (TCons ta tb)) s'"
      using loop [OF w c, of "[]"] ev by simp
    with evk show ?thesis by simp
  qed
  show ?case using loop top by blast
qed

lemma exprToStaticData_walk:
  assumes "walk n t e s = Some s'" and "n + cost t < k"
  shows "exprToStaticData k e s = Ok (canonical t) s'"
proof -
  from assms(2) obtain m where "k = Suc m" and "n + cost t \<le> m" by (cases k) auto
  then show ?thesis using canonicalize_walk [of n t] assms(1) by blast
qed

lemma forceModulatable_walk_top:
  assumes "oo_walk n t e s = Some s'" and "n + cost t < k"
  shows "forceModulatable k e s = Ok (canonicalM t) s'"
proof -
  from assms(2) obtain m where "k = Suc m" and "n + cost t \<le> m" by (cases k) auto
  then show ?thesis using forceModulatable_walk [of n t] assms(1) by blast
qed

text \<open>
  A value graph of which every thunk is forced already is walked at every depth bound
  from one on, and the walk leaves the store as it was.
\<close>

lemma represents_walk:
  "represents s t e \<Longrightarrow> walk (Suc n) t e s = Some s"
proof (induction t arbitrary: e)
  case (TNum i)
  then show ?case by (simp add: evaluate_forced del: depth_Suc)
next
  case TNil
  then show ?case by (simp add: evaluate_forced del: depth_Suc)
next
  case (TCons ta tb)
  from TCons.prems obtain a b where fv: "forcedValue s e = Some (ConsValue a b)"
    and ra: "represents s ta a" and rb: "represents s tb b"
    by (auto split: option.splits val.splits)
  show ?case
    using TCons.IH(1) [OF ra] TCons.IH(2) [OF rb]
    by (simp add: evaluate_forced [OF fv] del: depth_Suc)
qed

lemma oo_represents_walk:
  "oo_represents s t e \<Longrightarrow> oo_walk (Suc n) t e s = Some s"
proof (induction t arbitrary: e)
  case (TNum i)
  then show ?case by (simp add: forceValue_forced_ge del: oo_depth_Suc)
next
  case TNil
  then show ?case by (simp add: forceValue_forced_ge del: oo_depth_Suc)
next
  case (TCons ta tb)
  from TCons.prems obtain a b where fv: "oo_forcedValue s e = Some (OOConsValue a b)"
    and ra: "oo_represents s ta a" and rb: "oo_represents s tb b"
    by (auto split: option.splits oo_value.splits)
  show ?case
    using TCons.IH(1) [OF ra] TCons.IH(2) [OF rb]
    by (simp add: forceValue_forced_ge [OF fv] del: oo_depth_Suc)
qed

text \<open>
  C10. The two canonicalization passes agree on tagged data. Take an expression of the
  functional variant and an expression of the class-based variant, thunks forced or
  not. When forcing the value graph of each, the expression first and then the fields
  of every pair reached, returns within some depth bound and meets only numbers, nil
  and pairs, the same tagged data \<open>t\<close> on both sides, then at every larger depth bound
  the pass \<open>exprToStaticData\<close> and the pass \<open>forceModulatable\<close> both return, with the
  stores that the forcing leaves, and the two trees are equal: \<open>staticDataEqual\<close> holds
  of them, they are the same tree, and it is the canonical tree of \<open>t\<close>.
\<close>

theorem canonicalization_variants_agree:
  assumes "walk n t e s = Some s'" and "oo_walk n' t e' u = Some u'"
  shows "\<exists>d m. exprToStaticData (Suc (n + n' + cost t + k)) e s = Ok d s' \<and>
    forceModulatable (Suc (n + n' + cost t + k)) e' u = Ok m u' \<and>
    staticDataEqual d (asStaticData m) \<and> d = asStaticData m \<and> d = canonical t"
proof -
  have 1: "exprToStaticData (Suc (n + n' + cost t + k)) e s = Ok (canonical t) s'"
    using assms(1) by (rule exprToStaticData_walk) simp
  have 2: "forceModulatable (Suc (n + n' + cost t + k)) e' u = Ok (canonicalM t) u'"
    using assms(2) by (rule forceModulatable_walk_top) simp
  show ?thesis
    using 1 2 by (simp add: asStaticData_canonicalM staticDataEqual_iff)
qed

lemma oneThunk_walk:
  "walk (Suc (Suc (Suc 0))) (TCons (TNum 7) TNil) (V (ConsValue (Thunk 0) (V NilValue))) oneThunk =
     Some oneThunkForced"
proof -
  have 1: "evaluate (depth (Suc (Suc (Suc 0)))) (V (ConsValue (Thunk 0) (V NilValue))) oneThunk =
      Ok (ConsValue (Thunk 0) (V NilValue)) oneThunk"
    by (simp add: evaluate_body_def)
  have 2: "evaluate (depth (Suc (Suc (Suc 0)))) (V NilValue) oneThunkForced =
      Ok NilValue oneThunkForced"
    by (simp add: evaluate_body_def)
  show ?thesis by (simp add: 1 2 oneThunk_forces del: depth_Suc)
qed

lemma oo_oneThunk_walk:
  "oo_walk (Suc (Suc (Suc 0))) (TCons (TNum 7) TNil)
     (OOV (OOConsValue (OOThunk 0) (OOV OONilValue))) oo_oneThunk = Some oo_oneThunkForced"
proof -
  have 1: "forceValue (oo_depth (Suc (Suc (Suc 0)))) (OOV (OOConsValue (OOThunk 0) (OOV OONilValue)))
      oo_oneThunk = Ok (OOConsValue (OOThunk 0) (OOV OONilValue)) oo_oneThunk"
    by (simp add: forceValue_body_def)
  have 2: "forceValue (oo_depth (Suc (Suc (Suc 0)))) (OOV OONilValue) oo_oneThunkForced =
      Ok OONilValue oo_oneThunkForced"
    by (simp add: forceValue_body_def)
  show ?thesis by (simp add: 1 2 oo_oneThunk_forces del: oo_depth_Suc)
qed

theorem canonicalization_variants_agree_witness:
  "\<exists>d m. exprToStaticData (Suc (Suc (Suc (Suc 0)) + Suc (Suc (Suc 0)) + cost (TCons (TNum 7) TNil) + 0))
       (V (ConsValue (Thunk 0) (V NilValue))) oneThunk = Ok d oneThunkForced \<and>
     forceModulatable (Suc (Suc (Suc (Suc 0)) + Suc (Suc (Suc 0)) + cost (TCons (TNum 7) TNil) + 0))
       (OOV (OOConsValue (OOThunk 0) (OOV OONilValue))) oo_oneThunk =
       Ok m oo_oneThunkForced \<and>
     staticDataEqual d (asStaticData m) \<and> d = asStaticData m \<and> d = ListData [NumberData 7]"
  using canonicalization_variants_agree [OF oneThunk_walk oo_oneThunk_walk, of 0]
  by simp

lemma represents_chain:
  "represents s z e \<Longrightarrow> represents s (tchain xs z) (pairChain xs e)"
  by (induction xs) (auto simp: forcedValue_def makeCons_def makeNumber_def)

lemma oo_represents_chain:
  "oo_represents s z e \<Longrightarrow> oo_represents s (tchain xs z) (oo_pairChain xs e)"
  by (induction xs) (auto simp: oo_forcedValue_def)

lemma cost_chain: "cost (tchain xs z) = 9 * length xs + cost z"
  by (induction xs) auto

lemma canonical_chain_nil: "canonical (tchain xs TNil) = ListData (map NumberData xs)"
  by (induction xs) auto

lemma foldr_ConsData_not_list: "foldr ConsData ds (NumberData z) \<noteq> ListData es"
  by (cases ds) auto

lemma canonical_chain_number:
  "canonical (tchain xs (TNum z)) = foldr ConsData (map NumberData xs) (NumberData z)"
  by (induction xs) (auto simp: foldr_ConsData_not_list split: staticData.splits)

lemma canonicalM_chain_nil: "canonicalM (tchain xs TNil) = ListModulatable (map NumberModulatable xs)"
  by (induction xs) auto

lemma foldr_ConsModulatable_not_list:
  "foldr ConsModulatable ds (NumberModulatable z) \<noteq> ListModulatable es"
  by (cases ds) auto

lemma canonicalM_chain_number:
  "canonicalM (tchain xs (TNum z)) =
     foldr ConsModulatable (map NumberModulatable xs) (NumberModulatable z)"
  by (induction xs) (auto simp: foldr_ConsModulatable_not_list split: modulatable.splits)

text \<open>
  C4. Canonicalization round trip. For every list \<open>xs\<close> of integers, the chain of pairs
  of these numbers that ends in nil canonicalizes to the list node of the same numbers
  in the same order (the chain of \<open>1\<close>, \<open>-1\<close>, \<open>0\<close> to the list of \<open>1\<close>, \<open>-1\<close>, \<open>0\<close>), and
  the chain that ends in the number \<open>z\<close> canonicalizes to the pairs nested to the right
  that end in \<open>z\<close>. Both passes return this at every depth bound from
  \<open>9 * (length xs + 1)\<close> on, and leave the store as it was.
\<close>

theorem canonicalization_round_trip:
  "exprToStaticData (9 * (length xs + 1) + k) (pairChain xs (V makeNil)) s =
     Ok (ListData (map NumberData xs)) s \<and>
   exprToStaticData (36 + k) (pairChain [1, - 1, 0] (V makeNil)) s =
     Ok (ListData [NumberData 1, NumberData (- 1), NumberData 0]) s \<and>
   exprToStaticData (9 * (length xs + 1) + k) (pairChain xs (V (makeNumber z))) s =
     Ok (foldr ConsData (map NumberData xs) (NumberData z)) s \<and>
   forceModulatable (9 * (length xs + 1) + k) (oo_pairChain xs (OOV OONilValue)) s' =
     Ok (ListModulatable (map NumberModulatable xs)) s' \<and>
   forceModulatable (9 * (length xs + 1) + k) (oo_pairChain xs (OOV (OONumberValue z))) s' =
     Ok (foldr ConsModulatable (map NumberModulatable xs) (NumberModulatable z)) s'"
proof -
  have nil: "exprToStaticData (9 * (length ys + 1) + k) (pairChain ys (V makeNil)) s =
     Ok (ListData (map NumberData ys)) s" for ys
  proof -
    have r: "represents s (tchain ys TNil) (pairChain ys (V makeNil))"
      by (rule represents_chain) (simp add: forcedValue_def makeNil_def)
    have c: "cost (tchain ys TNil) < 9 * (length ys + 1) + k"
      by (simp add: cost_chain)
    show ?thesis
      using exprToStaticData_tagged [OF r c] by (simp only: canonical_chain_nil)
  qed
  have num: "exprToStaticData (9 * (length xs + 1) + k) (pairChain xs (V (makeNumber z))) s =
     Ok (foldr ConsData (map NumberData xs) (NumberData z)) s"
  proof -
    have r: "represents s (tchain xs (TNum z)) (pairChain xs (V (makeNumber z)))"
      by (rule represents_chain) (simp add: forcedValue_def makeNumber_def)
    have c: "cost (tchain xs (TNum z)) < 9 * (length xs + 1) + k"
      by (simp add: cost_chain)
    show ?thesis
      using exprToStaticData_tagged [OF r c] by (simp only: canonical_chain_number)
  qed
  have oonil: "forceModulatable (9 * (length xs + 1) + k) (oo_pairChain xs (OOV OONilValue)) s' =
     Ok (ListModulatable (map NumberModulatable xs)) s'"
  proof -
    have r: "oo_represents s' (tchain xs TNil) (oo_pairChain xs (OOV OONilValue))"
      by (rule oo_represents_chain) (simp add: oo_forcedValue_def)
    have c: "cost (tchain xs TNil) < 9 * (length xs + 1) + k"
      by (simp add: cost_chain)
    show ?thesis
      using forceModulatable_tagged_top [OF r c] by (simp only: canonicalM_chain_nil)
  qed
  have oonum: "forceModulatable (9 * (length xs + 1) + k) (oo_pairChain xs (OOV (OONumberValue z))) s' =
     Ok (foldr ConsModulatable (map NumberModulatable xs) (NumberModulatable z)) s'"
  proof -
    have r: "oo_represents s' (tchain xs (TNum z)) (oo_pairChain xs (OOV (OONumberValue z)))"
      by (rule oo_represents_chain) (simp add: oo_forcedValue_def)
    have c: "cost (tchain xs (TNum z)) < 9 * (length xs + 1) + k"
      by (simp add: cost_chain)
    show ?thesis
      using forceModulatable_tagged_top [OF r c] by (simp only: canonicalM_chain_number)
  qed
  have ex: "exprToStaticData (36 + k) (pairChain [1, - 1, 0] (V makeNil)) s =
     Ok (ListData [NumberData 1, NumberData (- 1), NumberData 0]) s"
    using nil [of "[1, - 1, 0]"] by simp
  show ?thesis using nil [of xs] ex num oonil oonum by blast
qed

end
